theory Spec2Isabelle
  imports Main "HOL-Library.Multiset" "HOL-Library.Sublist"
begin

section \<open>Python values of the spreadsheet and the built-ins the code applies to them\<close>

text \<open>
  Python text is modelled as \<^typ>\<open>string\<close> holding the UTF-8 bytes of the text. Equality and
  list membership of texts are equality of their encodings. The bytes of the ASCII
  characters the code looks at (\<open>.\<close>, the digits, the sign, the blanks) occur in UTF-8 only as
  these characters themselves, so splitting at \<open>.\<close> and keeping the digits \<open>0\<close> .. \<open>9\<close> act
  on the bytes as they act on the code points.

  A cell of a spreadsheet row is text, an integer, or absent (\<open>dict.get\<close> then gives
  \<open>None\<close>). Floating-point cells are outside the model.
\<close>

datatype error =
    ValueError
  | TypeError
  | AttributeError
  | IndexError
  | FileNotFoundError
  | BadZipFile
  | RequestError

datatype pyval = PyNone | PyInt int | PyStr string

type_synonym watch = "string \<rightharpoonup> pyval"

text \<open>\<open>watch.get(key)\<close>: the value stored under the key, \<open>None\<close> when the key is missing.\<close>

definition get :: "watch \<Rightarrow> string \<Rightarrow> pyval" where
  "get w key = (case w key of None \<Rightarrow> PyNone | Some v \<Rightarrow> v)"

text \<open>
  The Cyrillic column names of the spreadsheet (code, quantity, price), transliterated
  \<open>Kod\<close>, \<open>Kolichestvo\<close> and \<open>Tsena\<close>, as their UTF-8 bytes.
\<close>

definition Kod :: string where
  "Kod = [CHR 0xD0, CHR 0x9A, CHR 0xD0, CHR 0xBE, CHR 0xD0, CHR 0xB4]"

definition Kolichestvo :: string where
  "Kolichestvo = [CHR 0xD0, CHR 0x9A, CHR 0xD0, CHR 0xBE, CHR 0xD0, CHR 0xBB, CHR 0xD0, CHR 0xB8,
     CHR 0xD1, CHR 0x87, CHR 0xD0, CHR 0xB5, CHR 0xD1, CHR 0x81, CHR 0xD1, CHR 0x82,
     CHR 0xD0, CHR 0xB2, CHR 0xD0, CHR 0xBE]"

definition Tsena :: string where
  "Tsena = [CHR 0xD0, CHR 0xA6, CHR 0xD0, CHR 0xB5, CHR 0xD0, CHR 0xBD, CHR 0xD0, CHR 0xB0]"

definition is_digit :: "char \<Rightarrow> bool" where
  "is_digit c \<longleftrightarrow> c \<in> set ''0123456789''"

definition digit_value :: "char \<Rightarrow> nat" where
  "digit_value c = of_char c - 48"

text \<open>The character of a decimal digit \<open>d < 10\<close>.\<close>

definition digit_char :: "nat \<Rightarrow> char" where
  "digit_char d = ''0123456789'' ! d"

text \<open>The blanks that \<open>int\<close> skips around an ASCII literal: tab, LF, VT, FF, CR and space.\<close>

definition is_space :: "char \<Rightarrow> bool" where
  "is_space c \<longleftrightarrow> c \<in> set [CHR 0x09, CHR 0x0A, CHR 0x0B, CHR 0x0C, CHR 0x0D, CHR 0x20]"

subsection \<open>\<open>str\<close>\<close>

fun digits_nat :: "nat \<Rightarrow> string" where
  "digits_nat n =
     (if n < 10 then [digit_char n] else digits_nat (n div 10) @ [digit_char (n mod 10)])"

declare digits_nat.simps [simp del]

definition str_int :: "int \<Rightarrow> string" where
  "str_int i = (if i < 0 then CHR ''-'' # digits_nat (nat (- i)) else digits_nat (nat i))"

fun py_str :: "pyval \<Rightarrow> string" where
  "py_str PyNone = ''None''"
| "py_str (PyInt i) = str_int i"
| "py_str (PyStr s) = s"

subsection \<open>\<open>int\<close>\<close>

text \<open>
  \<open>int(text)\<close> reads \<open>[blanks] [sign] digit (['_'] digit)* [blanks]\<close> in base 10 and raises
  \<open>ValueError\<close> on anything else. \<open>digits_acc v cs\<close> has read a digit already, \<open>v\<close> being the
  value so far; it reads on while digits, each after at most one underscore, follow and
  returns the value with the text left over. Text with a byte outside ASCII is rejected
  here; the interpreter also accepts the decimal digits and blanks of other scripts, and
  refuses literals beyond its configured number of digits: both are outside the model.
\<close>

fun digits_acc :: "nat \<Rightarrow> string \<Rightarrow> nat \<times> string" where
  "digits_acc v [] = (v, [])"
| "digits_acc v (c # cs) =
     (if is_digit c then digits_acc (10 * v + digit_value c) cs
      else if c = CHR ''_'' then
        (case cs of
           [] \<Rightarrow> (v, c # cs)
         | d # ds \<Rightarrow>
             if is_digit d then digits_acc (10 * v + digit_value d) ds else (v, c # cs))
      else (v, c # cs))"

definition parse_unsigned :: "string \<Rightarrow> error + nat" where
  "parse_unsigned s =
     (case s of
        [] \<Rightarrow> Inl ValueError
      | c # cs \<Rightarrow>
          if is_digit c then
            (case digits_acc (digit_value c) cs of
               (v, rest) \<Rightarrow> if list_all is_space rest then Inr v else Inl ValueError)
          else Inl ValueError)"

definition int_str :: "string \<Rightarrow> error + int" where
  "int_str s =
     (case dropWhile is_space s of
        [] \<Rightarrow> Inl ValueError
      | c # cs \<Rightarrow>
          if c = CHR ''-'' then
            (case parse_unsigned cs of Inl e \<Rightarrow> Inl e | Inr v \<Rightarrow> Inr (- int v))
          else if c = CHR ''+'' then
            (case parse_unsigned cs of Inl e \<Rightarrow> Inl e | Inr v \<Rightarrow> Inr (int v))
          else
            (case parse_unsigned (c # cs) of Inl e \<Rightarrow> Inl e | Inr v \<Rightarrow> Inr (int v)))"

fun py_int :: "pyval \<Rightarrow> error + int" where
  "py_int PyNone = Inl TypeError"
| "py_int (PyInt i) = Inr i"
| "py_int (PyStr s) = int_str s"

section \<open>\<open>seller.py\<close>: the pure helpers\<close>

subsection \<open>\<open>price_conversion\<close>\<close>

text \<open>
  \<open>price.split(".")\<close>: the pieces of the text between the separators; never an empty list.
\<close>

fun split_sep :: "char \<Rightarrow> string \<Rightarrow> string list" where
  "split_sep sep [] = [[]]"
| "split_sep sep (c # cs) =
     (if c = sep then [] # split_sep sep cs
      else (case split_sep sep cs of
              [] \<Rightarrow> [[c]]
            | w # ws \<Rightarrow> (c # w) # ws))"

text \<open>\<open>re.sub("[^0-9]", "", text)\<close>: every character that is not one of \<open>0\<close> .. \<open>9\<close> is deleted.\<close>

definition re_sub_non_digits :: "string \<Rightarrow> string" where
  "re_sub_non_digits text = filter is_digit text"

text \<open>
  \<open>return re.sub("[^0-9]", "", price.split(".")[0])\<close>. The argument is whatever the cell
  holds: \<open>split\<close> exists on text only, so an integer or \<open>None\<close> raises \<open>AttributeError\<close>.
\<close>

fun price_conversion :: "pyval \<Rightarrow> error + string" where
  "price_conversion (PyStr price) =
     (case split_sep (CHR ''.'') price of
        [] \<Rightarrow> Inl IndexError
      | first # _ \<Rightarrow> Inr (re_sub_non_digits first))"
| "price_conversion _ = Inl AttributeError"

text \<open>
  The two texts of the docstring, as their UTF-8 bytes: \<open>5'990.00\<close>, a blank, the three
  Cyrillic letters of the rouble abbreviation and a full stop; and the six Cyrillic letters
  of the word for "error".
\<close>

definition price_example :: string where
  "price_example =
     ''5'990.00 '' @ [CHR 0xD1, CHR 0x80, CHR 0xD1, CHR 0x83, CHR 0xD0, CHR 0xB1] @ ''.''"

definition oshibka :: string where
  "oshibka = [CHR 0xD0, CHR 0x9E, CHR 0xD1, CHR 0x88, CHR 0xD0, CHR 0xB8, CHR 0xD0, CHR 0xB1,
     CHR 0xD0, CHR 0xBA, CHR 0xD0, CHR 0xB0]"

subsection \<open>\<open>divide\<close>\<close>

text \<open>\<open>lst[i : j]\<close> for \<open>0 \<le> i \<le> j\<close>; the slice is cut at the end of the list.\<close>

definition slice :: "'a list \<Rightarrow> nat \<Rightarrow> nat \<Rightarrow> 'a list" where
  "slice lst i j = take (j - i) (drop i lst)"

text \<open>
  \<open>for i in range(0, len(lst), n): yield lst[i : i + n]\<close>, for a positive step, from the
  index \<open>i\<close> on. \<open>divide\<close> is the list of everything the generator yields: \<open>range\<close> raises
  \<open>ValueError\<close> for the step 0 and is empty for a negative step.
\<close>

function divide_from :: "'a list \<Rightarrow> nat \<Rightarrow> nat \<Rightarrow> 'a list list" where
  "divide_from lst n i =
     (if 0 < n \<and> i < length lst then slice lst i (i + n) # divide_from lst n (i + n) else [])"
  by pat_completeness auto
termination
  by (relation "measure (\<lambda>(lst, n, i). length lst - i)") auto

declare divide_from.simps [simp del]

definition divide :: "'a list \<Rightarrow> int \<Rightarrow> error + 'a list list" where
  "divide lst n =
     (if n = 0 then Inl ValueError
      else if n < 0 then Inr []
      else Inr (divide_from lst (nat n) 0))"

subsection \<open>\<open>create_stocks\<close> and \<open>create_prices\<close> of \<open>seller.py\<close>\<close>

record ozon_stock =
  offer_id :: string
  stock :: int

record ozon_price =
  auto_action_enabled :: string
  currency_code :: string
  price_offer_id :: string
  old_price :: string
  price :: string

text \<open>
  The quantity of a matched row, as both \<open>create_stocks\<close> compute it: \<open>count\<close> is the text
  of the cell, and \<open>int\<close> is applied to the cell itself.
\<close>

definition stock_of_count :: "pyval \<Rightarrow> error + int" where
  "stock_of_count quantity =
     (let count = py_str quantity
      in if count = ''>10'' then Inr 100
         else if count = ''1'' then Inr 0
         else py_int quantity)"

text \<open>
  The first loop of \<open>create_stocks\<close>, over the rows that are left, with the list \<open>stocks\<close>
  built so far and the current content of the caller's list \<open>offer_ids\<close>;
  \<open>offer_ids.remove(x)\<close> deletes the first element equal to \<open>x\<close>. An exception of \<open>int\<close> ends
  the call.
\<close>

fun seller_stocks_loop ::
  "watch list \<Rightarrow> ozon_stock list \<Rightarrow> string list \<Rightarrow> error + (ozon_stock list \<times> string list)"
where
  "seller_stocks_loop [] stocks offer_ids = Inr (stocks, offer_ids)"
| "seller_stocks_loop (watch # rest) stocks offer_ids =
     (if py_str (get watch Kod) \<in> set offer_ids then
        (case stock_of_count (get watch Kolichestvo) of
           Inl e \<Rightarrow> Inl e
         | Inr n \<Rightarrow>
             seller_stocks_loop rest
               (stocks @ [\<lparr>offer_id = py_str (get watch Kod), stock = n\<rparr>])
               (remove1 (py_str (get watch Kod)) offer_ids))
      else seller_stocks_loop rest stocks offer_ids)"

text \<open>
  \<open>create_stocks\<close> returns the list \<open>stocks\<close>; the second component is the content of the
  caller's list \<open>offer_ids\<close> when the call returns.
\<close>

definition seller_create_stocks ::
  "watch list \<Rightarrow> string list \<Rightarrow> error + (ozon_stock list \<times> string list)"
where
  "seller_create_stocks watch_remnants offer_ids =
     (case seller_stocks_loop watch_remnants [] offer_ids of
        Inl e \<Rightarrow> Inl e
      | Inr (stocks, offer_ids') \<Rightarrow>
          Inr (stocks @ map (\<lambda>x. \<lparr>offer_id = x, stock = 0\<rparr>) offer_ids',
               offer_ids'))"

fun seller_prices_loop ::
  "watch list \<Rightarrow> ozon_price list \<Rightarrow> string list \<Rightarrow> error + ozon_price list"
where
  "seller_prices_loop [] prices offer_ids = Inr prices"
| "seller_prices_loop (watch # rest) prices offer_ids =
     (if py_str (get watch Kod) \<in> set offer_ids then
        (case price_conversion (get watch Tsena) of
           Inl e \<Rightarrow> Inl e
         | Inr p \<Rightarrow>
             seller_prices_loop rest
               (prices @ [\<lparr>auto_action_enabled = ''UNKNOWN'', currency_code = ''RUB'',
                           price_offer_id = py_str (get watch Kod), old_price = ''0'',
                           price = p\<rparr>])
               offer_ids)
      else seller_prices_loop rest prices offer_ids)"

definition seller_create_prices :: "watch list \<Rightarrow> string list \<Rightarrow> error + ozon_price list" where
  "seller_create_prices watch_remnants offer_ids = seller_prices_loop watch_remnants [] offer_ids"

text \<open>
  The two reconciliations of \<open>main\<close> in \<open>seller.py\<close>, in its order and over the one list
  object \<open>offer_ids\<close>: \<open>create_prices\<close> reads the list as \<open>create_stocks\<close> left it. The
  uploads of the batches in between do not touch the list and are left out.
\<close>

definition seller_main_reconcile ::
  "watch list \<Rightarrow> string list \<Rightarrow> error + (ozon_stock list \<times> ozon_price list)"
where
  "seller_main_reconcile watch_remnants offer_ids =
     (case seller_create_stocks watch_remnants offer_ids of
        Inl e \<Rightarrow> Inl e
      | Inr (stocks, offer_ids') \<Rightarrow>
          (case seller_create_prices watch_remnants offer_ids' of
             Inl e \<Rightarrow> Inl e
           | Inr prices \<Rightarrow> Inr (stocks, prices)))"

subsection \<open>\<open>get_offer_ids\<close> of \<open>seller.py\<close>\<close>

record ozon_product =
  product_offer_id :: string

record ozon_result =
  result_items :: "ozon_product list"
  total :: int
  last_id :: string

text \<open>
  The marketplace is outside the program: \<open>get_product_list\<close> is a parameter, giving for
  the \<open>k\<close>-th request of a run and the cursor sent with it either the \<open>result\<close> object of
  the answer or the exception that \<open>raise_for_status\<close> (or a malformed answer) raises. The
  \<open>while True\<close> loop need not end, so the loop is a partial function: \<open>None\<close> is a run that
  never returns.
\<close>

partial_function (option) seller_offer_ids_loop ::
  "(nat \<Rightarrow> string \<Rightarrow> error + ozon_result) \<Rightarrow> nat \<Rightarrow> string \<Rightarrow> ozon_product list
   \<Rightarrow> (error + ozon_product list) option"
where
  "seller_offer_ids_loop get_product_list k cursor product_list =
     (case get_product_list k cursor of
        Inl e \<Rightarrow> Some (Inl e)
      | Inr some_prod \<Rightarrow>
          (let product_list' = product_list @ result_items some_prod
           in if total some_prod = int (length product_list') then Some (Inr product_list')
              else seller_offer_ids_loop get_product_list (Suc k) (last_id some_prod)
                     product_list'))"

definition seller_get_offer_ids ::
  "(nat \<Rightarrow> string \<Rightarrow> error + ozon_result) \<Rightarrow> (error + string list) option"
where
  "seller_get_offer_ids get_product_list =
     (case seller_offer_ids_loop get_product_list 0 [] [] of
        None \<Rightarrow> None
      | Some (Inl e) \<Rightarrow> Some (Inl e)
      | Some (Inr product_list) \<Rightarrow> Some (Inr (map product_offer_id product_list)))"

text \<open>
  The run of the loop against a given marketplace, request by request: the cursor sent
  with request \<open>k\<close>, the answer to it, and the products accumulated by the first \<open>k\<close>
  answers.
\<close>

fun ozon_cursor :: "(nat \<Rightarrow> string \<Rightarrow> error + ozon_result) \<Rightarrow> nat \<Rightarrow> string" where
  "ozon_cursor api 0 = []"
| "ozon_cursor api (Suc k) =
     (case api k (ozon_cursor api k) of Inl e \<Rightarrow> [] | Inr r \<Rightarrow> last_id r)"

definition ozon_answer :: "(nat \<Rightarrow> string \<Rightarrow> error + ozon_result) \<Rightarrow> nat \<Rightarrow> error + ozon_result" where
  "ozon_answer api k = api k (ozon_cursor api k)"

definition ozon_accumulated ::
  "(nat \<Rightarrow> string \<Rightarrow> error + ozon_result) \<Rightarrow> nat \<Rightarrow> ozon_product list"
where
  "ozon_accumulated api k =
     concat (map (\<lambda>j. case ozon_answer api j of Inl e \<Rightarrow> [] | Inr r \<Rightarrow> result_items r) [0..<k])"

text \<open>Answer \<open>k\<close> arrives and its \<open>total\<close> equals the number of products accumulated with it.\<close>

definition ozon_total_reached :: "(nat \<Rightarrow> string \<Rightarrow> error + ozon_result) \<Rightarrow> nat \<Rightarrow> bool" where
  "ozon_total_reached api k =
     (case ozon_answer api k of
        Inl e \<Rightarrow> False
      | Inr r \<Rightarrow> total r = int (length (ozon_accumulated api (Suc k))))"

text \<open>Request \<open>k\<close> is answered and the loop goes on after it.\<close>

definition ozon_continues :: "(nat \<Rightarrow> string \<Rightarrow> error + ozon_result) \<Rightarrow> nat \<Rightarrow> bool" where
  "ozon_continues api k =
     (case ozon_answer api k of
        Inl e \<Rightarrow> False
      | Inr r \<Rightarrow> total r \<noteq> int (length (ozon_accumulated api (Suc k))))"

subsection \<open>\<open>download_stock\<close>\<close>

text \<open>
  The working directory is a map from file names to contents; \<open>ostatki.xls\<close> and
  \<open>./ostatki.xls\<close> name the same file. The collaborators are parameters: \<open>response\<close> is
  the outcome of the download with \<open>raise_for_status\<close>, \<open>unzip\<close> reads the members of an
  archive, \<open>read_excel\<close> parses the content of a spreadsheet file into rows.
  \<open>extractall\<close> writes every member, a later one over an earlier one of the same name.
  The result is what the call returns or raises, with the directory it leaves behind.
\<close>

type_synonym directory = "string \<rightharpoonup> string"

definition extractall :: "(string \<times> string) list \<Rightarrow> directory \<Rightarrow> directory" where
  "extractall members dir = foldl (\<lambda>d (name, content). d(name \<mapsto> content)) dir members"

definition download_stock ::
  "(error + string) \<Rightarrow> (string \<Rightarrow> error + (string \<times> string) list)
   \<Rightarrow> (string \<Rightarrow> error + watch list) \<Rightarrow> directory \<Rightarrow> (error + watch list) \<times> directory"
where
  "download_stock response unzip read_excel dir =
     (case response of
        Inl e \<Rightarrow> (Inl e, dir)
      | Inr content \<Rightarrow>
          (case unzip content of
             Inl e \<Rightarrow> (Inl e, dir)
           | Inr members \<Rightarrow>
               (let dir' = extractall members dir
                in case dir' ''ostatki.xls'' of
                     None \<Rightarrow> (Inl FileNotFoundError, dir')
                   | Some excel_file \<Rightarrow>
                       (case read_excel excel_file of
                          Inl e \<Rightarrow> (Inl e, dir')
                        | Inr watch_remnants \<Rightarrow>
                            (Inr watch_remnants, dir'(''ostatki.xls'' := None))))))"

section \<open>\<open>market.py\<close>: reconciliation\<close>

record market_item =
  count' :: int
  type' :: string
  updatedAt :: string

record market_stock =
  sku :: string
  warehouseId :: string
  items :: "market_item list"

record market_money =
  value' :: int
  currencyId :: string

record market_price =
  id' :: string
  price' :: market_money

text \<open>
  \<open>create_stocks\<close> of \<open>market.py\<close>. \<open>date\<close> is the text of the clock reading taken once at the
  start of the call; it is a parameter of the model.
\<close>

fun market_stocks_loop ::
  "string \<Rightarrow> string \<Rightarrow> watch list \<Rightarrow> market_stock list \<Rightarrow> string list
   \<Rightarrow> error + (market_stock list \<times> string list)"
where
  "market_stocks_loop warehouse_id date [] stocks offer_ids = Inr (stocks, offer_ids)"
| "market_stocks_loop warehouse_id date (watch # rest) stocks offer_ids =
     (if py_str (get watch Kod) \<in> set offer_ids then
        (case stock_of_count (get watch Kolichestvo) of
           Inl e \<Rightarrow> Inl e
         | Inr n \<Rightarrow>
             market_stocks_loop warehouse_id date rest
               (stocks @ [\<lparr>sku = py_str (get watch Kod), warehouseId = warehouse_id,
                           items = [\<lparr>count' = n, type' = ''FIT'', updatedAt = date\<rparr>]\<rparr>])
               (remove1 (py_str (get watch Kod)) offer_ids))
      else market_stocks_loop warehouse_id date rest stocks offer_ids)"

definition market_create_stocks ::
  "string \<Rightarrow> watch list \<Rightarrow> string list \<Rightarrow> string
   \<Rightarrow> error + (market_stock list \<times> string list)"
where
  "market_create_stocks date watch_remnants offer_ids warehouse_id =
     (case market_stocks_loop warehouse_id date watch_remnants [] offer_ids of
        Inl e \<Rightarrow> Inl e
      | Inr (stocks, offer_ids') \<Rightarrow>
          Inr (stocks @
                 map (\<lambda>x. \<lparr>sku = x, warehouseId = warehouse_id,
                        items = [\<lparr>count' = 0, type' = ''FIT'', updatedAt = date\<rparr>]\<rparr>) offer_ids',
               offer_ids'))"

text \<open>
  \<open>create_prices\<close> of \<open>market.py\<close>: the normalized price goes through \<open>int\<close>, which raises
  \<open>ValueError\<close> on the empty text.
\<close>

fun market_prices_loop ::
  "watch list \<Rightarrow> market_price list \<Rightarrow> string list \<Rightarrow> error + market_price list"
where
  "market_prices_loop [] prices offer_ids = Inr prices"
| "market_prices_loop (watch # rest) prices offer_ids =
     (if py_str (get watch Kod) \<in> set offer_ids then
        (case price_conversion (get watch Tsena) of
           Inl e \<Rightarrow> Inl e
         | Inr p \<Rightarrow>
             (case int_str p of
                Inl e \<Rightarrow> Inl e
              | Inr v \<Rightarrow>
                  market_prices_loop rest
                    (prices @ [\<lparr>id' = py_str (get watch Kod),
                                price' = \<lparr>value' = v, currencyId = ''RUR''\<rparr>\<rparr>])
                    offer_ids))
      else market_prices_loop rest prices offer_ids)"

definition market_create_prices :: "watch list \<Rightarrow> string list \<Rightarrow> error + market_price list" where
  "market_create_prices watch_remnants offer_ids = market_prices_loop watch_remnants [] offer_ids"

subsection \<open>\<open>get_offer_ids\<close> of \<open>market.py\<close>\<close>

record market_offer =
  shopSku :: string

record market_entry =
  offer :: market_offer

record market_paging =
  nextPageToken :: "string option"

record market_result =
  offerMappingEntries :: "market_entry list"
  paging :: market_paging

text \<open>
  \<open>if not page: break\<close> leaves the loop when the token is missing (\<open>None\<close>) or the empty
  text; any other token is sent with the next request.
\<close>

partial_function (option) market_offer_ids_loop ::
  "(nat \<Rightarrow> string \<Rightarrow> error + market_result) \<Rightarrow> nat \<Rightarrow> string \<Rightarrow> market_entry list
   \<Rightarrow> (error + market_entry list) option"
where
  "market_offer_ids_loop get_product_list k page product_list =
     (case get_product_list k page of
        Inl e \<Rightarrow> Some (Inl e)
      | Inr some_prod \<Rightarrow>
          (let product_list' = product_list @ offerMappingEntries some_prod
           in case nextPageToken (paging some_prod) of
                None \<Rightarrow> Some (Inr product_list')
              | Some page' \<Rightarrow>
                  if page' = [] then Some (Inr product_list')
                  else market_offer_ids_loop get_product_list (Suc k) page' product_list'))"

definition market_get_offer_ids ::
  "(nat \<Rightarrow> string \<Rightarrow> error + market_result) \<Rightarrow> (error + string list) option"
where
  "market_get_offer_ids get_product_list =
     (case market_offer_ids_loop get_product_list 0 [] [] of
        None \<Rightarrow> None
      | Some (Inl e) \<Rightarrow> Some (Inl e)
      | Some (Inr product_list) \<Rightarrow>
          Some (Inr (map (\<lambda>product. shopSku (offer product)) product_list)))"

text \<open>The token of an answer as the loop reads it: a missing token counts as the empty text.\<close>

definition next_page :: "market_result \<Rightarrow> string" where
  "next_page r = (case nextPageToken (paging r) of None \<Rightarrow> [] | Some page \<Rightarrow> page)"

fun market_cursor :: "(nat \<Rightarrow> string \<Rightarrow> error + market_result) \<Rightarrow> nat \<Rightarrow> string" where
  "market_cursor api 0 = []"
| "market_cursor api (Suc k) =
     (case api k (market_cursor api k) of Inl e \<Rightarrow> [] | Inr r \<Rightarrow> next_page r)"

definition market_answer ::
  "(nat \<Rightarrow> string \<Rightarrow> error + market_result) \<Rightarrow> nat \<Rightarrow> error + market_result"
where
  "market_answer api k = api k (market_cursor api k)"

definition market_accumulated ::
  "(nat \<Rightarrow> string \<Rightarrow> error + market_result) \<Rightarrow> nat \<Rightarrow> market_entry list"
where
  "market_accumulated api k =
     concat (map (\<lambda>j. case market_answer api j of Inl e \<Rightarrow> []
                       | Inr r \<Rightarrow> offerMappingEntries r) [0..<k])"

text \<open>Answer \<open>k\<close> arrives and carries no next-page token, or the empty one.\<close>

definition market_cursor_empty :: "(nat \<Rightarrow> string \<Rightarrow> error + market_result) \<Rightarrow> nat \<Rightarrow> bool" where
  "market_cursor_empty api k =
     (case market_answer api k of Inl e \<Rightarrow> False | Inr r \<Rightarrow> next_page r = [])"

definition market_continues :: "(nat \<Rightarrow> string \<Rightarrow> error + market_result) \<Rightarrow> nat \<Rightarrow> bool" where
  "market_continues api k =
     (case market_answer api k of Inl e \<Rightarrow> False | Inr r \<Rightarrow> next_page r \<noteq> [])"

section \<open>Notions used to state the properties\<close>

text \<open>The code of a row as the reconciliation compares it: \<open>str(watch.get(Kod))\<close>.\<close>

definition watch_code :: "watch \<Rightarrow> string" where
  "watch_code w = py_str (get w Kod)"

text \<open>
  The rows that consume a listed identifier, and the identifiers that are left, when the
  rows are taken in order and each row whose code is still listed takes the first
  identifier equal to its code out of the list.
\<close>

fun matched_rows :: "watch list \<Rightarrow> string list \<Rightarrow> watch list" where
  "matched_rows [] ids = []"
| "matched_rows (w # ws) ids =
     (if watch_code w \<in> set ids then w # matched_rows ws (remove1 (watch_code w) ids)
      else matched_rows ws ids)"

fun remaining_ids :: "watch list \<Rightarrow> string list \<Rightarrow> string list" where
  "remaining_ids [] ids = ids"
| "remaining_ids (w # ws) ids = remaining_ids ws (remove1 (watch_code w) ids)"

text \<open>A spreadsheet row with the three columns the program reads.\<close>

definition row :: "pyval \<Rightarrow> pyval \<Rightarrow> pyval \<Rightarrow> watch" where
  "row c q p = [Kod \<mapsto> c, Kolichestvo \<mapsto> q, Tsena \<mapsto> p]"






text \<open>
  Two marketplaces for the examples. The first answers the empty cursor with two of its
  three products and the cursor it then returns with the third; the second answers the
  empty page token with one entry and a token, and that token with a last entry and no
  token. Any other request is refused.
\<close>

definition ozon_example_api :: "nat \<Rightarrow> string \<Rightarrow> error + ozon_result" where
  "ozon_example_api k cursor =
     (if cursor = [] then
        Inr \<lparr>result_items = [\<lparr>product_offer_id = ''1001''\<rparr>, \<lparr>product_offer_id = ''1002''\<rparr>],
             total = 3, last_id = ''1002''\<rparr>
      else if cursor = ''1002'' then
        Inr \<lparr>result_items = [\<lparr>product_offer_id = ''1003''\<rparr>], total = 3, last_id = ''1003''\<rparr>
      else Inl RequestError)"

definition market_example_api :: "nat \<Rightarrow> string \<Rightarrow> error + market_result" where
  "market_example_api k page =
     (if page = [] then
        Inr \<lparr>offerMappingEntries = [\<lparr>offer = \<lparr>shopSku = ''12345''\<rparr>\<rparr>],
             paging = \<lparr>nextPageToken = Some ''p2''\<rparr>\<rparr>
      else if page = ''p2'' then
        Inr \<lparr>offerMappingEntries = [\<lparr>offer = \<lparr>shopSku = ''67890''\<rparr>\<rparr>],
             paging = \<lparr>nextPageToken = None\<rparr>\<rparr>
      else Inl RequestError)"

section \<open>Properties\<close>

subsection \<open>The price normalizer\<close>

lemma split_sep_first:
  "\<exists>ws. split_sep sep s = takeWhile (\<lambda>c. c \<noteq> sep) s # ws"
  by (induction s) auto

lemma price_conversion_prefix:
  "price_conversion (PyStr s) = Inr (filter is_digit (takeWhile (\<lambda>c. c \<noteq> CHR ''.'') s))"
proof -
  obtain ws where "split_sep (CHR ''.'') s = takeWhile (\<lambda>c. c \<noteq> CHR ''.'') s # ws"
    using split_sep_first by blast
  then show ?thesis
    by (simp add: re_sub_non_digits_def)
qed

text \<open>
  C9. For every price text, \<open>price_conversion\<close> returns the digits of the part of the text
  before its first \<open>.\<close>: the text is cut at the first \<open>.\<close>, what follows is dropped, and every
  character that is not a digit is deleted from the prefix. The docstring's price text gives \<open>"5990"\<close>,
  and a text with no digit before its first \<open>.\<close> gives the empty text.
\<close>

theorem price_conversion_spec:
  "price_conversion (PyStr s) = Inr (filter is_digit (takeWhile (\<lambda>c. c \<noteq> CHR ''.'') s))
   \<and> price_conversion (PyStr price_example) = Inr ''5990''
   \<and> ((\<forall>c \<in> set (takeWhile (\<lambda>c. c \<noteq> CHR ''.'') s). \<not> is_digit c)
        \<longrightarrow> price_conversion (PyStr s) = Inr '''')"
proof (intro conjI impI)
  show "price_conversion (PyStr s) = Inr (filter is_digit (takeWhile (\<lambda>c. c \<noteq> CHR ''.'') s))"
    by (rule price_conversion_prefix)
  show "price_conversion (PyStr price_example) = Inr ''5990''"
    by (simp add: price_example_def re_sub_non_digits_def is_digit_def)
next
  assume "\<forall>c \<in> set (takeWhile (\<lambda>c. c \<noteq> CHR ''.'') s). \<not> is_digit c"
  then have "filter is_digit (takeWhile (\<lambda>c. c \<noteq> CHR ''.'') s) = []"
    by (simp add: filter_empty_conv)
  then show "price_conversion (PyStr s) = Inr ''''"
    by (simp only: price_conversion_prefix)
qed

theorem price_conversion_spec_witness:
  "filter is_digit (takeWhile (\<lambda>c. c \<noteq> CHR ''.'') oshibka) = []
   \<and> price_conversion (PyStr oshibka) = Inr ''''"
proof -
  have h: "\<forall>c \<in> set (takeWhile (\<lambda>c. c \<noteq> CHR ''.'') oshibka). \<not> is_digit c"
    by (simp add: oshibka_def is_digit_def)
  then have "filter is_digit (takeWhile (\<lambda>c. c \<noteq> CHR ''.'') oshibka) = []"
    by (simp add: filter_empty_conv)
  with h price_conversion_spec [of oshibka] show ?thesis
    by blast
qed

subsection \<open>The batcher\<close>

lemma concat_divide_from:
  "0 < n \<Longrightarrow> concat (divide_from lst n i) = drop i lst"
proof (induction lst n i rule: divide_from.induct)
  case (1 lst n i)
  show ?case
  proof (cases "i < length lst")
    case True
    with 1 have "concat (divide_from lst n (i + n)) = drop (i + n) lst"
      by simp
    moreover have "drop (i + n) lst = drop n (drop i lst)"
      by (simp add: add.commute)
    moreover have "slice lst i (i + n) = take n (drop i lst)"
      by (simp add: slice_def)
    ultimately have "slice lst i (i + n) @ concat (divide_from lst n (i + n)) = drop i lst"
      by (simp only: append_take_drop_id)
    with True 1(2) show ?thesis
      by (subst divide_from.simps) simp
  next
    case False
    then show ?thesis
      by (subst divide_from.simps) simp
  qed
qed

lemma chunk_length_divide_from:
  "c \<in> set (divide_from lst n i) \<Longrightarrow> 0 < length c \<and> length c \<le> n"
proof (induction lst n i rule: divide_from.induct)
  case (1 lst n i)
  show ?case
  proof (cases "0 < n \<and> i < length lst")
    case True
    with 1(2) have "c = slice lst i (i + n) \<or> c \<in> set (divide_from lst n (i + n))"
      by (subst (asm) divide_from.simps) simp
    with True 1(1) show ?thesis
      by (auto simp: slice_def)
  next
    case False
    with 1(2) show ?thesis
      by (subst (asm) divide_from.simps) simp
  qed
qed

lemma short_chunks_divide_from:
  "0 < n \<Longrightarrow> i \<le> length lst \<Longrightarrow>
   length (filter (\<lambda>c. length c < n) (divide_from lst n i)) =
     (if n dvd (length lst - i) then 0 else 1)"
proof (induction lst n i rule: divide_from.induct)
  case (1 lst n i)
  show ?case
  proof (cases "i < length lst")
    case False
    with 1(3) show ?thesis
      by (subst divide_from.simps) simp
  next
    case True
    note lt = this
    show ?thesis
    proof (cases "i + n \<le> length lst")
      case True
      with 1 lt have ih: "length (filter (\<lambda>c. length c < n) (divide_from lst n (i + n))) =
          (if n dvd (length lst - (i + n)) then 0 else 1)"
        by simp
      from True have "length lst - i = (length lst - (i + n)) + n"
        by simp
      then have "n dvd (length lst - i) \<longleftrightarrow> n dvd (length lst - (i + n))"
        by (metis dvd_add_triv_right_iff)
      with True lt 1(2) ih show ?thesis
        by (subst divide_from.simps) (simp add: slice_def)
    next
      case False
      then have rest: "divide_from lst n (i + n) = []"
        by (subst divide_from.simps) simp
      from False lt have "0 < length lst - i" "length lst - i < n"
        by simp_all
      then have "\<not> n dvd (length lst - i)"
        by (meson dvd_imp_le not_less)
      with False lt 1(2) rest show ?thesis
        by (subst divide_from.simps) (simp add: slice_def)
    qed
  qed
qed

text \<open>
  C5. For every list and every chunk size \<open>n > 0\<close>, \<open>divide\<close> yields chunks whose
  concatenation is the list itself, in order; every chunk is non-empty and has at most \<open>n\<close>
  elements; and the number of chunks shorter than \<open>n\<close> is one, unless the length of the
  list is a multiple of \<open>n\<close>, when it is zero.
\<close>

theorem divide_batches:
  assumes "0 < n"
  shows "\<exists>chunks. divide lst n = Inr chunks
           \<and> concat chunks = lst
           \<and> (\<forall>c \<in> set chunks. 0 < length c \<and> int (length c) \<le> n)
           \<and> length (filter (\<lambda>c. int (length c) < n) chunks) =
               (if n dvd int (length lst) then 0 else 1)"
proof -
  from assms have pos: "0 < nat n"
    by simp
  have d: "divide lst n = Inr (divide_from lst (nat n) 0)"
    using assms by (simp add: divide_def)
  have c: "concat (divide_from lst (nat n) 0) = lst"
    using concat_divide_from [OF pos, of lst 0] by simp
  have l: "\<forall>c \<in> set (divide_from lst (nat n) 0). 0 < length c \<and> int (length c) \<le> n"
    using chunk_length_divide_from [of _ lst "nat n" 0] assms by fastforce
  have eq: "(\<lambda>c::'a list. int (length c) < n) = (\<lambda>c. length c < nat n)"
    using assms by (auto simp: fun_eq_iff)
  have dv: "n dvd int (length lst) \<longleftrightarrow> nat n dvd length lst"
    using assms by (metis int_dvd_int_iff int_nat_eq less_imp_le)
  have s: "length (filter (\<lambda>c. int (length c) < n) (divide_from lst (nat n) 0)) =
      (if n dvd int (length lst) then 0 else 1)"
    using short_chunks_divide_from [OF pos, of 0 lst] by (simp add: eq dv)
  from d c l s show ?thesis
    by blast
qed

theorem divide_batches_witness:
  "(0::int) < 2
   \<and> (\<exists>chunks. divide [1, 2, 3, 4, 5 :: nat] 2 = Inr chunks
         \<and> chunks = [[1, 2], [3, 4], [5]]
         \<and> concat chunks = [1, 2, 3, 4, 5]
         \<and> (\<forall>c \<in> set chunks. 0 < length c \<and> int (length c) \<le> 2)
         \<and> length (filter (\<lambda>c. int (length c) < 2) chunks) = 1)"
proof -
  have h: "(0::int) < 2"
    by simp
  have v: "divide [1, 2, 3, 4, 5 :: nat] 2 = Inr [[1, 2], [3, 4], [5]]"
    by (simp add: divide_def divide_from.simps slice_def)
  from divide_batches [OF h, of "[1, 2, 3, 4, 5 :: nat]"] h v show ?thesis
    by simp
qed

subsection \<open>The quantity normalizer\<close>












lemma int_str_empty: "int_str [] = Inl ValueError"
  by (simp add: int_str_def)




subsection \<open>Stock reconciliation\<close>


lemma remaining_ids_skip:
  "watch_code w \<notin> set ids \<Longrightarrow> remaining_ids (w # ws) ids = remaining_ids ws ids"
  by (simp add: remove1_idem)


lemma subseq_remove1: "subseq (remove1 x xs) xs"
  by (induction xs) auto

lemma subseq_remaining_ids: "subseq (remaining_ids rows ids) ids"
proof (induction rows arbitrary: ids)
  case Nil
  show ?case by simp
next
  case (Cons w ws)
  have "subseq (remaining_ids ws (remove1 (watch_code w) ids)) (remove1 (watch_code w) ids)"
    by (rule Cons.IH)
  then show ?case
    using subseq_remove1 subseq_order.order_trans by fastforce
qed

lemma mset_remaining_ids:
  "mset (remaining_ids rows ids) = mset ids - mset (map watch_code rows)"
  by (induction rows arbitrary: ids) simp_all

lemma mset_matched_rows:
  "mset (map watch_code (matched_rows rows ids)) = mset (map watch_code rows) \<inter># mset ids"
proof (induction rows arbitrary: ids)
  case Nil
  show ?case by simp
next
  case (Cons w ws)
  show ?case
  proof (cases "watch_code w \<in> set ids")
    case True
    with Cons.IH [of "remove1 (watch_code w) ids"] show ?thesis
      by (simp add: inter_add_left2)
  next
    case False
    with Cons.IH [of ids] show ?thesis
      by (simp add: inter_add_left1)
  qed
qed

lemma matched_rows_listed: "w \<in> set (matched_rows rows ids) \<Longrightarrow> watch_code w \<in> set ids"
proof (induction rows arbitrary: ids)
  case Nil
  then show ?case by simp
next
  case (Cons v vs)
  have "set (remove1 (watch_code v) ids) \<subseteq> set ids"
    by (rule set_remove1_subset)
  with Cons show ?case
    by (auto split: if_splits)
qed

lemma remaining_ids_distinct:
  "distinct ids \<Longrightarrow>
   remaining_ids rows ids = filter (\<lambda>x. x \<notin> set (map watch_code rows)) ids"
proof (induction rows arbitrary: ids)
  case Nil
  show ?case by simp
next
  case (Cons w ws)
  have r: "remove1 (watch_code w) ids = filter (\<lambda>x. x \<noteq> watch_code w) ids"
  proof -
    have "remove1 (watch_code w) ids = filter ((\<noteq>) (watch_code w)) ids"
      using Cons.prems by (simp add: distinct_remove1_removeAll removeAll_filter_not_eq)
    also have "\<dots> = filter (\<lambda>x. x \<noteq> watch_code w) ids"
      by (rule filter_cong) auto
    finally show ?thesis .
  qed
  have "remaining_ids (w # ws) ids = remaining_ids ws (remove1 (watch_code w) ids)"
    by simp
  also have "\<dots> = filter (\<lambda>x. x \<notin> set (map watch_code ws)) (remove1 (watch_code w) ids)"
    using Cons.prems by (intro Cons.IH) simp
  also have "\<dots> = filter (\<lambda>x. x \<notin> set (map watch_code ws))
                      (filter (\<lambda>x. x \<noteq> watch_code w) ids)"
    by (simp only: r)
  also have "\<dots> = filter (\<lambda>x. x \<notin> set (map watch_code (w # ws))) ids"
    by (auto intro: filter_cong)
  finally show ?case .
qed

lemma seller_stocks_loop_shape:
  "seller_stocks_loop rows acc ids = Inr (st, rest) \<Longrightarrow>
   rest = remaining_ids rows ids \<and>
   (\<exists>new. st = acc @ new \<and>
      list_all2 (\<lambda>w s. \<exists>q. stock_of_count (get w Kolichestvo) = Inr q
                     \<and> s = \<lparr>offer_id = watch_code w, stock = q\<rparr>) (matched_rows rows ids) new)"
proof (induction rows arbitrary: acc ids)
  case Nil
  then show ?case by simp
next
  case (Cons w ws)
  show ?case
  proof (cases "watch_code w \<in> set ids")
    case False
    with Cons.prems have "seller_stocks_loop ws acc ids = Inr (st, rest)"
      by (simp add: watch_code_def)
    from Cons.IH [OF this] False show ?thesis
      by (simp add: remove1_idem)
  next
    case True
    with Cons.prems obtain q where q: "stock_of_count (get w Kolichestvo) = Inr q"
      and r: "seller_stocks_loop ws (acc @ [\<lparr>offer_id = watch_code w, stock = q\<rparr>])
                (remove1 (watch_code w) ids) = Inr (st, rest)"
      by (auto simp: watch_code_def split: sum.splits)
    from Cons.IH [OF r] obtain new where
      rest: "rest = remaining_ids ws (remove1 (watch_code w) ids)" and
      st: "st = (acc @ [\<lparr>offer_id = watch_code w, stock = q\<rparr>]) @ new" and
      rel: "list_all2 (\<lambda>w s. \<exists>q. stock_of_count (get w Kolichestvo) = Inr q
                     \<and> s = \<lparr>offer_id = watch_code w, stock = q\<rparr>)
              (matched_rows ws (remove1 (watch_code w) ids)) new"
      by blast
    from st have "st = acc @ (\<lparr>offer_id = watch_code w, stock = q\<rparr> # new)"
      by simp
    moreover from rel q True have "list_all2 (\<lambda>w s. \<exists>q. stock_of_count (get w Kolichestvo) = Inr q
                     \<and> s = \<lparr>offer_id = watch_code w, stock = q\<rparr>)
              (matched_rows (w # ws) ids) (\<lparr>offer_id = watch_code w, stock = q\<rparr> # new)"
      by simp
    ultimately show ?thesis
      using rest by auto
  qed
qed


lemma market_stocks_loop_shape:
  "market_stocks_loop wid date rows acc ids = Inr (st, rest) \<Longrightarrow>
   rest = remaining_ids rows ids \<and>
   (\<exists>new. st = acc @ new \<and>
      list_all2 (\<lambda>w s. \<exists>q. stock_of_count (get w Kolichestvo) = Inr q
                     \<and> s = \<lparr>sku = watch_code w, warehouseId = wid,
                            items = [\<lparr>count' = q, type' = ''FIT'', updatedAt = date\<rparr>]\<rparr>)
        (matched_rows rows ids) new)"
proof (induction rows arbitrary: acc ids)
  case Nil
  then show ?case by simp
next
  case (Cons w ws)
  let ?R = "\<lambda>w s. \<exists>q. stock_of_count (get w Kolichestvo) = Inr q
                     \<and> s = \<lparr>sku = watch_code w, warehouseId = wid,
                            items = [\<lparr>count' = q, type' = ''FIT'', updatedAt = date\<rparr>]\<rparr>"
  show ?case
  proof (cases "watch_code w \<in> set ids")
    case False
    with Cons.prems have "market_stocks_loop wid date ws acc ids = Inr (st, rest)"
      by (simp add: watch_code_def)
    from Cons.IH [OF this] False show ?thesis
      by (simp add: remove1_idem)
  next
    case True
    with Cons.prems obtain q where q: "stock_of_count (get w Kolichestvo) = Inr q"
      and r: "market_stocks_loop wid date ws
                (acc @ [\<lparr>sku = watch_code w, warehouseId = wid,
                          items = [\<lparr>count' = q, type' = ''FIT'', updatedAt = date\<rparr>]\<rparr>])
                (remove1 (watch_code w) ids) = Inr (st, rest)"
      by (auto simp: watch_code_def split: sum.splits)
    from Cons.IH [OF r] obtain new where
      rest: "rest = remaining_ids ws (remove1 (watch_code w) ids)" and
      st: "st = (acc @ [\<lparr>sku = watch_code w, warehouseId = wid,
                          items = [\<lparr>count' = q, type' = ''FIT'', updatedAt = date\<rparr>]\<rparr>]) @ new" and
      rel: "list_all2 ?R (matched_rows ws (remove1 (watch_code w) ids)) new"
      by blast
    from st have "st = acc @ (\<lparr>sku = watch_code w, warehouseId = wid,
                          items = [\<lparr>count' = q, type' = ''FIT'', updatedAt = date\<rparr>]\<rparr> # new)"
      by simp
    moreover from rel q True have "list_all2 ?R (matched_rows (w # ws) ids)
        (\<lparr>sku = watch_code w, warehouseId = wid,
                          items = [\<lparr>count' = q, type' = ''FIT'', updatedAt = date\<rparr>]\<rparr> # new)"
      by simp
    ultimately show ?thesis
      using rest by auto
  qed
qed


lemma mset_matched_and_remaining:
  "mset (map watch_code (matched_rows rows ids) @ remaining_ids rows ids) = mset ids"
proof -
  have "A \<inter># B + (B - A) = B" for A B :: "string multiset"
    by (rule multiset_eqI) (simp add: min_def)
  then have "mset (map watch_code rows) \<inter># mset ids + (mset ids - mset (map watch_code rows)) = mset ids"
    by blast
  then show ?thesis
    using mset_matched_rows [of rows ids] mset_remaining_ids [of rows ids] by simp
qed

lemma seller_create_stocks_shape:
  assumes "seller_create_stocks rows ids = Inr (out, rest)"
  shows "rest = remaining_ids rows ids"
    and "list_all2 (\<lambda>w s. \<exists>q. stock_of_count (get w Kolichestvo) = Inr q
                     \<and> s = \<lparr>offer_id = watch_code w, stock = q\<rparr>)
           (matched_rows rows ids) (take (length (matched_rows rows ids)) out)"
    and "drop (length (matched_rows rows ids)) out = map (\<lambda>x. \<lparr>offer_id = x, stock = 0\<rparr>) rest"
    and "map offer_id out = map watch_code (matched_rows rows ids) @ rest"
proof -
  from assms obtain st where l: "seller_stocks_loop rows [] ids = Inr (st, rest)"
    and out: "out = st @ map (\<lambda>x. \<lparr>offer_id = x, stock = 0\<rparr>) rest"
    by (auto simp: seller_create_stocks_def split: sum.splits)
  let ?R = "\<lambda>w s. \<exists>q. stock_of_count (get w Kolichestvo) = Inr q
                     \<and> s = \<lparr>offer_id = watch_code w, stock = q\<rparr>"
  from seller_stocks_loop_shape [OF l] have r: "rest = remaining_ids rows ids"
    and rel: "list_all2 ?R (matched_rows rows ids) st"
    by auto
  from rel have len: "length st = length (matched_rows rows ids)"
    by (simp add: list_all2_lengthD)
  from rel have ids: "map offer_id st = map watch_code (matched_rows rows ids)"
    by (induction rule: list_all2_induct) auto
  show "rest = remaining_ids rows ids"
    by (rule r)
  show "list_all2 ?R (matched_rows rows ids) (take (length (matched_rows rows ids)) out)"
    using rel len out by simp
  show "drop (length (matched_rows rows ids)) out = map (\<lambda>x. \<lparr>offer_id = x, stock = 0\<rparr>) rest"
    using len out by simp
  show "map offer_id out = map watch_code (matched_rows rows ids) @ rest"
    using ids out by (simp add: comp_def)
qed

lemma market_create_stocks_shape:
  assumes "market_create_stocks date rows ids wid = Inr (out, rest)"
  shows "rest = remaining_ids rows ids"
    and "list_all2 (\<lambda>w s. \<exists>q. stock_of_count (get w Kolichestvo) = Inr q
                     \<and> s = \<lparr>sku = watch_code w, warehouseId = wid,
                            items = [\<lparr>count' = q, type' = ''FIT'', updatedAt = date\<rparr>]\<rparr>)
           (matched_rows rows ids) (take (length (matched_rows rows ids)) out)"
    and "drop (length (matched_rows rows ids)) out =
           map (\<lambda>x. \<lparr>sku = x, warehouseId = wid,
                      items = [\<lparr>count' = 0, type' = ''FIT'', updatedAt = date\<rparr>]\<rparr>) rest"
    and "map sku out = map watch_code (matched_rows rows ids) @ rest"
proof -
  from assms obtain st where l: "market_stocks_loop wid date rows [] ids = Inr (st, rest)"
    and out: "out = st @ map (\<lambda>x. \<lparr>sku = x, warehouseId = wid,
                      items = [\<lparr>count' = 0, type' = ''FIT'', updatedAt = date\<rparr>]\<rparr>) rest"
    by (auto simp: market_create_stocks_def split: sum.splits)
  let ?R = "\<lambda>w s. \<exists>q. stock_of_count (get w Kolichestvo) = Inr q
                     \<and> s = \<lparr>sku = watch_code w, warehouseId = wid,
                            items = [\<lparr>count' = q, type' = ''FIT'', updatedAt = date\<rparr>]\<rparr>"
  from market_stocks_loop_shape [OF l] have r: "rest = remaining_ids rows ids"
    and rel: "list_all2 ?R (matched_rows rows ids) st"
    by auto
  from rel have len: "length st = length (matched_rows rows ids)"
    by (simp add: list_all2_lengthD)
  from rel have ids: "map sku st = map watch_code (matched_rows rows ids)"
    by (induction rule: list_all2_induct) auto
  show "rest = remaining_ids rows ids"
    by (rule r)
  show "list_all2 ?R (matched_rows rows ids) (take (length (matched_rows rows ids)) out)"
    using rel len out by simp
  show "drop (length (matched_rows rows ids)) out =
           map (\<lambda>x. \<lparr>sku = x, warehouseId = wid,
                      items = [\<lparr>count' = 0, type' = ''FIT'', updatedAt = date\<rparr>]\<rparr>) rest"
    using len out by simp
  show "map sku out = map watch_code (matched_rows rows ids) @ rest"
    using ids out by (simp add: comp_def)
qed

lemma get_row:
  "get (row c q p) Kod = c" "get (row c q p) Kolichestvo = q" "get (row c q p) Tsena = p"
  by (simp_all add: get_def row_def Kod_def Kolichestvo_def Tsena_def)

lemma seller_prices_loop_unlisted:
  "\<forall>w \<in> set rows. watch_code w \<notin> set ids \<Longrightarrow> seller_prices_loop rows acc ids = Inr acc"
  by (induction rows arbitrary: acc) (simp_all add: watch_code_def)

lemma int_str_5: "int_str ''5'' = Inr 5"
  by (simp add: int_str_def is_space_def parse_unsigned_def is_digit_def digit_value_def)

lemma int_str_7: "int_str ''7'' = Inr 7"
  by (simp add: int_str_def is_space_def parse_unsigned_def is_digit_def digit_value_def)















lemma str_int_1001: "str_int 1001 = ''1001''"
  by (simp add: str_int_def digits_nat.simps digit_char_def)



text \<open>
  C10. When \<open>create_stocks\<close> returns (in either module), every identifier has as many
  entries in the list as it has occurrences among the listed identifiers: each listed
  identifier is consumed once, whatever the number of rows that share its code. When the
  listed identifiers are distinct, no two entries have the same identifier.
\<close>


theorem create_stocks_once:
  "(seller_create_stocks rows ids = Inr (out, rest) \<longrightarrow>
      count_list (map offer_id out) x = count_list ids x
      \<and> (distinct ids \<longrightarrow> distinct (map offer_id out)))
   \<and> (market_create_stocks date rows ids wid = Inr (mout, mrest) \<longrightarrow>
      count_list (map sku mout) x = count_list ids x
      \<and> (distinct ids \<longrightarrow> distinct (map sku mout)))"
proof (intro conjI impI)
  assume a: "seller_create_stocks rows ids = Inr (out, rest)"
  note s = seller_create_stocks_shape [OF a]
  have m: "mset (map offer_id out) = mset ids"
    using mset_matched_and_remaining [of rows ids] s(1) s(4) by simp
  then show "count_list (map offer_id out) x = count_list ids x"
    by (metis count_mset)
  show "distinct (map offer_id out)" if "distinct ids"
    using that m by (metis mset_eq_imp_distinct_iff)
next
  assume a: "market_create_stocks date rows ids wid = Inr (mout, mrest)"
  note s = market_create_stocks_shape [OF a]
  have m: "mset (map sku mout) = mset ids"
    using mset_matched_and_remaining [of rows ids] s(1) s(4) by simp
  then show "count_list (map sku mout) x = count_list ids x"
    by (metis count_mset)
  show "distinct (map sku mout)" if "distinct ids"
    using that m by (metis mset_eq_imp_distinct_iff)
qed

theorem create_stocks_once_witness:
  "seller_create_stocks
     [row (PyStr ''A'') (PyStr ''5'') (PyStr ''10''), row (PyStr ''A'') (PyStr ''7'') (PyStr ''10'')]
     [''A''] = Inr ([\<lparr>offer_id = ''A'', stock = 5\<rparr>], [])
   \<and> count_list (map offer_id [\<lparr>offer_id = ''A'', stock = 5\<rparr>]) ''A'' = count_list [''A''] ''A''
   \<and> distinct [''A''] \<and> distinct (map offer_id [\<lparr>offer_id = ''A'', stock = 5\<rparr>])
   \<and> market_create_stocks ''t''
     [row (PyStr ''A'') (PyStr ''5'') (PyStr ''10''), row (PyStr ''A'') (PyStr ''7'') (PyStr ''10'')]
     [''A''] ''w'' =
     Inr ([\<lparr>sku = ''A'', warehouseId = ''w'',
             items = [\<lparr>count' = 5, type' = ''FIT'', updatedAt = ''t''\<rparr>]\<rparr>], [])
   \<and> distinct (map sku [\<lparr>sku = ''A'', warehouseId = ''w'',
             items = [\<lparr>count' = 5, type' = ''FIT'', updatedAt = ''t''\<rparr>]\<rparr>])"
proof -
  have s: "seller_create_stocks
     [row (PyStr ''A'') (PyStr ''5'') (PyStr ''10''), row (PyStr ''A'') (PyStr ''7'') (PyStr ''10'')]
     [''A''] = Inr ([\<lparr>offer_id = ''A'', stock = 5\<rparr>], [])"
    by (simp add: seller_create_stocks_def get_row stock_of_count_def int_str_5)
  have m: "market_create_stocks ''t''
     [row (PyStr ''A'') (PyStr ''5'') (PyStr ''10''), row (PyStr ''A'') (PyStr ''7'') (PyStr ''10'')]
     [''A''] ''w'' =
     Inr ([\<lparr>sku = ''A'', warehouseId = ''w'',
             items = [\<lparr>count' = 5, type' = ''FIT'', updatedAt = ''t''\<rparr>]\<rparr>], [])"
    by (simp add: market_create_stocks_def get_row stock_of_count_def int_str_5)
  have d: "distinct [''A'']"
    by simp
  from create_stocks_once
    [of "[row (PyStr ''A'') (PyStr ''5'') (PyStr ''10''), row (PyStr ''A'') (PyStr ''7'') (PyStr ''10'')]"
        "[''A'']" "[\<lparr>offer_id = ''A'', stock = 5\<rparr>]" "[]" "''A''" "''t''" "''w''"
        "[\<lparr>sku = ''A'', warehouseId = ''w'',
             items = [\<lparr>count' = 5, type' = ''FIT'', updatedAt = ''t''\<rparr>]\<rparr>]" "[]"]
    s m d
  show ?thesis
    by blast
qed

text \<open>
  C4. When \<open>create_stocks\<close> returns (in either module), the caller's list \<open>offer_ids\<close>
  holds, in their order, the listed identifiers that no row consumed: with multiplicity,
  the listed identifiers beyond the codes of the rows. When the listed identifiers are
  distinct, these are the identifiers that are the code of no row, \<open>create_prices\<close> over
  the list that is left returns the empty list, and so the prices that \<open>main\<close> of
  \<open>seller.py\<close> computes are empty.
\<close>


theorem create_stocks_mutates_offer_ids:
  "(seller_create_stocks rows ids = Inr (out, rest) \<longrightarrow>
      subseq rest ids \<and> mset rest = mset ids - mset (map watch_code rows)
      \<and> (distinct ids \<longrightarrow>
            rest = filter (\<lambda>x. x \<notin> set (map watch_code rows)) ids
            \<and> seller_create_prices rows rest = Inr []
            \<and> seller_main_reconcile rows ids = Inr (out, [])))
   \<and> (market_create_stocks date rows ids wid = Inr (mout, mrest) \<longrightarrow>
      subseq mrest ids \<and> mset mrest = mset ids - mset (map watch_code rows)
      \<and> (distinct ids \<longrightarrow> mrest = filter (\<lambda>x. x \<notin> set (map watch_code rows)) ids))"
proof (intro conjI impI)
  assume a: "seller_create_stocks rows ids = Inr (out, rest)"
  note s = seller_create_stocks_shape [OF a]
  show "subseq rest ids" "mset rest = mset ids - mset (map watch_code rows)"
    using s(1) subseq_remaining_ids mset_remaining_ids by simp_all
  assume d: "distinct ids"
  then show r: "rest = filter (\<lambda>x. x \<notin> set (map watch_code rows)) ids"
    using s(1) remaining_ids_distinct by simp
  then have "\<forall>w \<in> set rows. watch_code w \<notin> set rest"
    by simp
  then show p: "seller_create_prices rows rest = Inr []"
    by (simp add: seller_create_prices_def seller_prices_loop_unlisted)
  with a show "seller_main_reconcile rows ids = Inr (out, [])"
    by (simp add: seller_main_reconcile_def)
next
  assume a: "market_create_stocks date rows ids wid = Inr (mout, mrest)"
  note s = market_create_stocks_shape [OF a]
  show "subseq mrest ids" "mset mrest = mset ids - mset (map watch_code rows)"
    using s(1) subseq_remaining_ids mset_remaining_ids by simp_all
  assume d: "distinct ids"
  then show "mrest = filter (\<lambda>x. x \<notin> set (map watch_code rows)) ids"
    using s(1) remaining_ids_distinct by simp
qed

theorem create_stocks_mutates_offer_ids_witness:
  "seller_create_stocks [row (PyInt 1001) (PyStr ''>10'') (PyStr ''1'500.00 p.'')] [''1001'', ''1002''] =
     Inr ([\<lparr>offer_id = ''1001'', stock = 100\<rparr>, \<lparr>offer_id = ''1002'', stock = 0\<rparr>], [''1002''])
   \<and> distinct [''1001'', ''1002'']
   \<and> seller_create_prices [row (PyInt 1001) (PyStr ''>10'') (PyStr ''1'500.00 p.'')] [''1002''] = Inr []
   \<and> seller_main_reconcile [row (PyInt 1001) (PyStr ''>10'') (PyStr ''1'500.00 p.'')] [''1001'', ''1002''] =
     Inr ([\<lparr>offer_id = ''1001'', stock = 100\<rparr>, \<lparr>offer_id = ''1002'', stock = 0\<rparr>], [])
   \<and> market_create_stocks ''t'' [row (PyInt 1001) (PyStr ''>10'') (PyStr ''1'500.00 p.'')]
       [''1001'', ''1002''] ''w'' =
     Inr ([\<lparr>sku = ''1001'', warehouseId = ''w'',
             items = [\<lparr>count' = 100, type' = ''FIT'', updatedAt = ''t''\<rparr>]\<rparr>,
           \<lparr>sku = ''1002'', warehouseId = ''w'',
             items = [\<lparr>count' = 0, type' = ''FIT'', updatedAt = ''t''\<rparr>]\<rparr>], [''1002''])
   \<and> subseq [''1002''] [''1001'', ''1002'']"
proof -
  have c: "str_int 1001 = ''1001''"
    by (simp add: str_int_def digits_nat.simps digit_char_def)
  have s: "seller_create_stocks [row (PyInt 1001) (PyStr ''>10'') (PyStr ''1'500.00 p.'')] [''1001'', ''1002''] =
     Inr ([\<lparr>offer_id = ''1001'', stock = 100\<rparr>, \<lparr>offer_id = ''1002'', stock = 0\<rparr>], [''1002''])"
    by (simp add: seller_create_stocks_def get_row stock_of_count_def c)
  have m: "market_create_stocks ''t'' [row (PyInt 1001) (PyStr ''>10'') (PyStr ''1'500.00 p.'')]
       [''1001'', ''1002''] ''w'' =
     Inr ([\<lparr>sku = ''1001'', warehouseId = ''w'',
             items = [\<lparr>count' = 100, type' = ''FIT'', updatedAt = ''t''\<rparr>]\<rparr>,
           \<lparr>sku = ''1002'', warehouseId = ''w'',
             items = [\<lparr>count' = 0, type' = ''FIT'', updatedAt = ''t''\<rparr>]\<rparr>], [''1002''])"
    by (simp add: market_create_stocks_def get_row stock_of_count_def c)
  have d: "distinct [''1001'', ''1002'']"
    by simp
  from create_stocks_mutates_offer_ids
    [of "[row (PyInt 1001) (PyStr ''>10'') (PyStr ''1'500.00 p.'')]" "[''1001'', ''1002'']"
        "[\<lparr>offer_id = ''1001'', stock = 100\<rparr>, \<lparr>offer_id = ''1002'', stock = 0\<rparr>]" "[''1002'']"
        "''t''" "''w''"
        "[\<lparr>sku = ''1001'', warehouseId = ''w'',
             items = [\<lparr>count' = 100, type' = ''FIT'', updatedAt = ''t''\<rparr>]\<rparr>,
           \<lparr>sku = ''1002'', warehouseId = ''w'',
             items = [\<lparr>count' = 0, type' = ''FIT'', updatedAt = ''t''\<rparr>]\<rparr>]" "[''1002'']"]
    s m d
  show ?thesis
    by blast
qed

subsection \<open>Price reconciliation\<close>


lemma list_all2_left_witness:
  "list_all2 R xs ys \<Longrightarrow> x \<in> set xs \<Longrightarrow> \<exists>y \<in> set ys. R x y"
  by (induction rule: list_all2_induct) auto

lemma seller_prices_loop_shape:
  "seller_prices_loop rows acc ids = Inr out \<Longrightarrow>
   \<exists>new. out = acc @ new \<and>
     list_all2 (\<lambda>w p. \<exists>t. price_conversion (get w Tsena) = Inr t
                    \<and> p = \<lparr>auto_action_enabled = ''UNKNOWN'', currency_code = ''RUB'',
                           price_offer_id = watch_code w, old_price = ''0'', price = t\<rparr>)
       (filter (\<lambda>w. watch_code w \<in> set ids) rows) new"
proof (induction rows arbitrary: acc)
  case Nil
  then show ?case by simp
next
  case (Cons w ws)
  show ?case
  proof (cases "watch_code w \<in> set ids")
    case False
    with Cons.prems have "seller_prices_loop ws acc ids = Inr out"
      by (simp add: watch_code_def)
    from Cons.IH [OF this] False show ?thesis
      by simp
  next
    case True
    with Cons.prems obtain t where t: "price_conversion (get w Tsena) = Inr t"
      and r: "seller_prices_loop ws
                (acc @ [\<lparr>auto_action_enabled = ''UNKNOWN'', currency_code = ''RUB'',
                          price_offer_id = watch_code w, old_price = ''0'', price = t\<rparr>]) ids = Inr out"
      by (auto simp: watch_code_def split: sum.splits)
    from Cons.IH [OF r] obtain new where
      "out = (acc @ [\<lparr>auto_action_enabled = ''UNKNOWN'', currency_code = ''RUB'',
                          price_offer_id = watch_code w, old_price = ''0'', price = t\<rparr>]) @ new"
      and "list_all2 (\<lambda>w p. \<exists>t. price_conversion (get w Tsena) = Inr t
                    \<and> p = \<lparr>auto_action_enabled = ''UNKNOWN'', currency_code = ''RUB'',
                           price_offer_id = watch_code w, old_price = ''0'', price = t\<rparr>)
             (filter (\<lambda>w. watch_code w \<in> set ids) ws) new"
      by blast
    with t True show ?thesis
      by (intro exI [of _ "\<lparr>auto_action_enabled = ''UNKNOWN'', currency_code = ''RUB'',
                          price_offer_id = watch_code w, old_price = ''0'', price = t\<rparr> # new"]) simp
  qed
qed

lemma seller_prices_loop_complete:
  "list_all2 (\<lambda>w p. \<exists>t. price_conversion (get w Tsena) = Inr t
                    \<and> p = \<lparr>auto_action_enabled = ''UNKNOWN'', currency_code = ''RUB'',
                           price_offer_id = watch_code w, old_price = ''0'', price = t\<rparr>)
       (filter (\<lambda>w. watch_code w \<in> set ids) rows) new \<Longrightarrow>
   seller_prices_loop rows acc ids = Inr (acc @ new)"
proof (induction rows arbitrary: acc new)
  case Nil
  then show ?case by simp
next
  case (Cons w ws)
  show ?case
  proof (cases "watch_code w \<in> set ids")
    case False
    with Cons show ?thesis
      by (simp add: watch_code_def)
  next
    case True
    with Cons.prems obtain t new' where t: "price_conversion (get w Tsena) = Inr t"
      and n: "new = \<lparr>auto_action_enabled = ''UNKNOWN'', currency_code = ''RUB'',
                          price_offer_id = watch_code w, old_price = ''0'', price = t\<rparr> # new'"
      and r: "list_all2 (\<lambda>w p. \<exists>t. price_conversion (get w Tsena) = Inr t
                    \<and> p = \<lparr>auto_action_enabled = ''UNKNOWN'', currency_code = ''RUB'',
                           price_offer_id = watch_code w, old_price = ''0'', price = t\<rparr>)
             (filter (\<lambda>w. watch_code w \<in> set ids) ws) new'"
      by (auto simp: list_all2_Cons1)
    from Cons.IH [OF r] t n True show ?thesis
      by (simp add: watch_code_def)
  qed
qed

lemma market_prices_loop_shape:
  "market_prices_loop rows acc ids = Inr out \<Longrightarrow>
   \<exists>new. out = acc @ new \<and>
     list_all2 (\<lambda>w p. \<exists>t v. price_conversion (get w Tsena) = Inr t \<and> int_str t = Inr v
                    \<and> p = \<lparr>id' = watch_code w, price' = \<lparr>value' = v, currencyId = ''RUR''\<rparr>\<rparr>)
       (filter (\<lambda>w. watch_code w \<in> set ids) rows) new"
proof (induction rows arbitrary: acc)
  case Nil
  then show ?case by simp
next
  case (Cons w ws)
  show ?case
  proof (cases "watch_code w \<in> set ids")
    case False
    with Cons.prems have "market_prices_loop ws acc ids = Inr out"
      by (simp add: watch_code_def)
    from Cons.IH [OF this] False show ?thesis
      by simp
  next
    case True
    with Cons.prems obtain t v where t: "price_conversion (get w Tsena) = Inr t"
      and v: "int_str t = Inr v"
      and r: "market_prices_loop ws
                (acc @ [\<lparr>id' = watch_code w, price' = \<lparr>value' = v, currencyId = ''RUR''\<rparr>\<rparr>]) ids =
              Inr out"
      by (auto simp: watch_code_def split: sum.splits)
    from Cons.IH [OF r] obtain new where
      "out = (acc @ [\<lparr>id' = watch_code w, price' = \<lparr>value' = v, currencyId = ''RUR''\<rparr>\<rparr>]) @ new"
      and "list_all2 (\<lambda>w p. \<exists>t v. price_conversion (get w Tsena) = Inr t \<and> int_str t = Inr v
                    \<and> p = \<lparr>id' = watch_code w, price' = \<lparr>value' = v, currencyId = ''RUR''\<rparr>\<rparr>)
             (filter (\<lambda>w. watch_code w \<in> set ids) ws) new"
      by blast
    with t v True show ?thesis
      by (intro exI [of _ "\<lparr>id' = watch_code w, price' = \<lparr>value' = v, currencyId = ''RUR''\<rparr>\<rparr> # new"])
        simp
  qed
qed

lemma market_prices_loop_complete:
  "list_all2 (\<lambda>w p. \<exists>t v. price_conversion (get w Tsena) = Inr t \<and> int_str t = Inr v
                    \<and> p = \<lparr>id' = watch_code w, price' = \<lparr>value' = v, currencyId = ''RUR''\<rparr>\<rparr>)
       (filter (\<lambda>w. watch_code w \<in> set ids) rows) new \<Longrightarrow>
   market_prices_loop rows acc ids = Inr (acc @ new)"
proof (induction rows arbitrary: acc new)
  case Nil
  then show ?case by simp
next
  case (Cons w ws)
  show ?case
  proof (cases "watch_code w \<in> set ids")
    case False
    with Cons show ?thesis
      by (simp add: watch_code_def)
  next
    case True
    with Cons.prems obtain t v new' where t: "price_conversion (get w Tsena) = Inr t"
      and v: "int_str t = Inr v"
      and n: "new = \<lparr>id' = watch_code w, price' = \<lparr>value' = v, currencyId = ''RUR''\<rparr>\<rparr> # new'"
      and r: "list_all2 (\<lambda>w p. \<exists>t v. price_conversion (get w Tsena) = Inr t \<and> int_str t = Inr v
                    \<and> p = \<lparr>id' = watch_code w, price' = \<lparr>value' = v, currencyId = ''RUR''\<rparr>\<rparr>)
             (filter (\<lambda>w. watch_code w \<in> set ids) ws) new'"
      by (auto simp: list_all2_Cons1)
    from Cons.IH [OF r] t v n True show ?thesis
      by (simp add: watch_code_def)
  qed
qed

lemma price_conversion_1500: "price_conversion (PyStr ''1'500.00 p.'') = Inr ''1500''"
  by (simp add: re_sub_non_digits_def is_digit_def)

lemma price_conversion_oshibka: "price_conversion (PyStr oshibka) = Inr ''''"
  by (simp add: re_sub_non_digits_def oshibka_def is_digit_def)

lemma int_str_1500: "int_str ''1500'' = Inr 1500"
  by (simp add: int_str_def is_space_def parse_unsigned_def is_digit_def digit_value_def)

text \<open>
  C3. \<open>create_prices\<close> (in either module) returns a list exactly when that list has one
  entry for each row whose code is among the listed identifiers, in the order of the rows,
  carrying the code of the row and its normalized price (in \<open>market.py\<close>, read as an
  integer). The identifiers of the entries are the codes of these rows: an identifier that
  is the code of no row has no entry, so no placeholder is emitted for a listed identifier
  that no row matches.
\<close>


theorem create_prices_matched_only:
  "(seller_create_prices rows ids = Inr out \<longleftrightarrow>
      list_all2 (\<lambda>w p. \<exists>t. price_conversion (get w Tsena) = Inr t
                     \<and> p = \<lparr>auto_action_enabled = ''UNKNOWN'', currency_code = ''RUB'',
                            price_offer_id = watch_code w, old_price = ''0'', price = t\<rparr>)
        (filter (\<lambda>w. watch_code w \<in> set ids) rows) out)
   \<and> (seller_create_prices rows ids = Inr out \<longrightarrow>
        map price_offer_id out = map watch_code (filter (\<lambda>w. watch_code w \<in> set ids) rows)
        \<and> (x \<notin> set (map watch_code rows) \<longrightarrow> x \<notin> set (map price_offer_id out)))
   \<and> (market_create_prices rows ids = Inr mout \<longleftrightarrow>
      list_all2 (\<lambda>w p. \<exists>t v. price_conversion (get w Tsena) = Inr t \<and> int_str t = Inr v
                     \<and> p = \<lparr>id' = watch_code w, price' = \<lparr>value' = v, currencyId = ''RUR''\<rparr>\<rparr>)
        (filter (\<lambda>w. watch_code w \<in> set ids) rows) mout)
   \<and> (market_create_prices rows ids = Inr mout \<longrightarrow>
        map id' mout = map watch_code (filter (\<lambda>w. watch_code w \<in> set ids) rows)
        \<and> (x \<notin> set (map watch_code rows) \<longrightarrow> x \<notin> set (map id' mout)))"
proof -
  let ?Rs = "\<lambda>w p. \<exists>t. price_conversion (get w Tsena) = Inr t
                     \<and> p = \<lparr>auto_action_enabled = ''UNKNOWN'', currency_code = ''RUB'',
                            price_offer_id = watch_code w, old_price = ''0'', price = t\<rparr>"
  let ?Rm = "\<lambda>w p. \<exists>t v. price_conversion (get w Tsena) = Inr t \<and> int_str t = Inr v
                     \<and> p = \<lparr>id' = watch_code w, price' = \<lparr>value' = v, currencyId = ''RUR''\<rparr>\<rparr>"
  let ?ms = "filter (\<lambda>w. watch_code w \<in> set ids) rows"
  have s: "seller_create_prices rows ids = Inr out \<longleftrightarrow> list_all2 ?Rs ?ms out"
    using seller_prices_loop_shape [of rows "[]" ids out]
      seller_prices_loop_complete [of ids rows out "[]"]
    by (auto simp: seller_create_prices_def)
  have m: "market_create_prices rows ids = Inr mout \<longleftrightarrow> list_all2 ?Rm ?ms mout"
    using market_prices_loop_shape [of rows "[]" ids mout]
      market_prices_loop_complete [of ids rows mout "[]"]
    by (auto simp: market_create_prices_def)
  have si: "map price_offer_id out = map watch_code ?ms" if "list_all2 ?Rs ?ms out"
    using that by (induction rule: list_all2_induct) auto
  have mi: "map id' mout = map watch_code ?ms" if "list_all2 ?Rm ?ms mout"
    using that by (induction rule: list_all2_induct) auto
  have sub: "set (map watch_code ?ms) \<subseteq> set (map watch_code rows)"
    by auto
  from s m si mi sub show ?thesis
    by (metis (no_types, lifting) subsetD)
qed

theorem create_prices_matched_only_witness:
  "seller_create_prices [row (PyInt 1001) (PyStr ''>10'') (PyStr ''1'500.00 p.'')] [''1001'', ''1002''] =
     Inr [\<lparr>auto_action_enabled = ''UNKNOWN'', currency_code = ''RUB'',
            price_offer_id = ''1001'', old_price = ''0'', price = ''1500''\<rparr>]
   \<and> ''1002'' \<notin> set (map watch_code [row (PyInt 1001) (PyStr ''>10'') (PyStr ''1'500.00 p.'')])
   \<and> ''1002'' \<notin> set (map price_offer_id
         [\<lparr>auto_action_enabled = ''UNKNOWN'', currency_code = ''RUB'',
            price_offer_id = ''1001'', old_price = ''0'', price = ''1500''\<rparr>])
   \<and> market_create_prices [row (PyInt 1001) (PyStr ''>10'') (PyStr ''1'500.00 p.'')] [''1001'', ''1002''] =
     Inr [\<lparr>id' = ''1001'', price' = \<lparr>value' = 1500, currencyId = ''RUR''\<rparr>\<rparr>]
   \<and> ''1002'' \<notin> set (map id' [\<lparr>id' = ''1001'', price' = \<lparr>value' = 1500, currencyId = ''RUR''\<rparr>\<rparr>])"
proof -
  have s: "seller_create_prices [row (PyInt 1001) (PyStr ''>10'') (PyStr ''1'500.00 p.'')] [''1001'', ''1002''] =
     Inr [\<lparr>auto_action_enabled = ''UNKNOWN'', currency_code = ''RUB'',
            price_offer_id = ''1001'', old_price = ''0'', price = ''1500''\<rparr>]"
    by (simp add: seller_create_prices_def get_row str_int_1001 price_conversion_1500
        del: price_conversion.simps)
  have m: "market_create_prices [row (PyInt 1001) (PyStr ''>10'') (PyStr ''1'500.00 p.'')] [''1001'', ''1002''] =
     Inr [\<lparr>id' = ''1001'', price' = \<lparr>value' = 1500, currencyId = ''RUR''\<rparr>\<rparr>]"
    by (simp add: market_create_prices_def get_row str_int_1001 price_conversion_1500 int_str_1500
        del: price_conversion.simps)
  have n: "''1002'' \<notin> set (map watch_code [row (PyInt 1001) (PyStr ''>10'') (PyStr ''1'500.00 p.'')])"
    by (simp add: watch_code_def get_row str_int_1001)
  from create_prices_matched_only
    [of "[row (PyInt 1001) (PyStr ''>10'') (PyStr ''1'500.00 p.'')]" "[''1001'', ''1002'']"
        "[\<lparr>auto_action_enabled = ''UNKNOWN'', currency_code = ''RUB'',
            price_offer_id = ''1001'', old_price = ''0'', price = ''1500''\<rparr>]"
        "''1002''"
        "[\<lparr>id' = ''1001'', price' = \<lparr>value' = 1500, currencyId = ''RUR''\<rparr>\<rparr>]"]
    s m n
  show ?thesis
    by blast
qed

text \<open>
  C7, as the code has it. Take a row whose code is listed and whose price text has no
  digit before its first \<open>.\<close>, so that the normalizer gives the empty text. Then
  \<open>create_prices\<close> of \<open>market.py\<close> fails: \<open>int\<close> of the empty text raises, unless an
  earlier row has already raised. \<open>create_prices\<close> of \<open>seller.py\<close> has no conversion:
  when it returns, the entry of the row carries the empty text as its price (never \<open>"0"\<close>).
\<close>


theorem create_prices_empty_price:
  "w \<in> set rows \<and> watch_code w \<in> set ids \<and> get w Tsena = PyStr t
     \<and> filter is_digit (takeWhile (\<lambda>c. c \<noteq> CHR ''.'') t) = [] \<longrightarrow>
   (\<exists>e. market_create_prices rows ids = Inl e)
   \<and> (seller_create_prices rows ids = Inr out \<longrightarrow>
        \<lparr>auto_action_enabled = ''UNKNOWN'', currency_code = ''RUB'',
          price_offer_id = watch_code w, old_price = ''0'', price = ''''\<rparr> \<in> set out)"
proof (intro impI conjI)
  assume a: "w \<in> set rows \<and> watch_code w \<in> set ids \<and> get w Tsena = PyStr t
     \<and> filter is_digit (takeWhile (\<lambda>c. c \<noteq> CHR ''.'') t) = []"
  then have p: "price_conversion (get w Tsena) = Inr ''''"
    by (simp only: price_conversion_prefix)
  from a have f: "w \<in> set (filter (\<lambda>w. watch_code w \<in> set ids) rows)"
    by simp
  show "\<exists>e. market_create_prices rows ids = Inl e"
  proof (cases "market_create_prices rows ids")
    case (Inl e)
    then show ?thesis by blast
  next
    case (Inr mout)
    then obtain new where "list_all2 (\<lambda>w p. \<exists>t v. price_conversion (get w Tsena) = Inr t \<and> int_str t = Inr v
                    \<and> p = \<lparr>id' = watch_code w, price' = \<lparr>value' = v, currencyId = ''RUR''\<rparr>\<rparr>)
       (filter (\<lambda>w. watch_code w \<in> set ids) rows) new"
      using market_prices_loop_shape [of rows "[]" ids mout]
      by (auto simp: market_create_prices_def)
    from list_all2_left_witness [OF this f] p have "\<exists>v. int_str '''' = Inr v"
      by auto
    then show ?thesis
      by (simp add: int_str_empty)
  qed
  assume "seller_create_prices rows ids = Inr out"
  then have "list_all2 (\<lambda>w p. \<exists>t. price_conversion (get w Tsena) = Inr t
                    \<and> p = \<lparr>auto_action_enabled = ''UNKNOWN'', currency_code = ''RUB'',
                           price_offer_id = watch_code w, old_price = ''0'', price = t\<rparr>)
       (filter (\<lambda>w. watch_code w \<in> set ids) rows) out"
    using seller_prices_loop_shape [of rows "[]" ids out]
    by (auto simp: seller_create_prices_def)
  from list_all2_left_witness [OF this f] p
  show "\<lparr>auto_action_enabled = ''UNKNOWN'', currency_code = ''RUB'',
          price_offer_id = watch_code w, old_price = ''0'', price = ''''\<rparr> \<in> set out"
    by auto
qed

theorem create_prices_empty_price_witness:
  "row (PyStr ''A'') (PyStr ''5'') (PyStr oshibka) \<in> set [row (PyStr ''A'') (PyStr ''5'') (PyStr oshibka)]
   \<and> watch_code (row (PyStr ''A'') (PyStr ''5'') (PyStr oshibka)) \<in> set [''A'']
   \<and> get (row (PyStr ''A'') (PyStr ''5'') (PyStr oshibka)) Tsena = PyStr oshibka
   \<and> filter is_digit (takeWhile (\<lambda>c. c \<noteq> CHR ''.'') oshibka) = []
   \<and> market_create_prices [row (PyStr ''A'') (PyStr ''5'') (PyStr oshibka)] [''A''] = Inl ValueError
   \<and> (\<exists>e. market_create_prices [row (PyStr ''A'') (PyStr ''5'') (PyStr oshibka)] [''A''] = Inl e)"
proof -
  have h: "row (PyStr ''A'') (PyStr ''5'') (PyStr oshibka) \<in> set [row (PyStr ''A'') (PyStr ''5'') (PyStr oshibka)]"
    "watch_code (row (PyStr ''A'') (PyStr ''5'') (PyStr oshibka)) \<in> set [''A'']"
    "get (row (PyStr ''A'') (PyStr ''5'') (PyStr oshibka)) Tsena = PyStr oshibka"
    "filter is_digit (takeWhile (\<lambda>c. c \<noteq> CHR ''.'') oshibka) = []"
    by (simp_all add: watch_code_def get_row oshibka_def is_digit_def)
  have m: "market_create_prices [row (PyStr ''A'') (PyStr ''5'') (PyStr oshibka)] [''A''] = Inl ValueError"
    by (simp add: market_create_prices_def get_row price_conversion_oshibka int_str_empty
        del: price_conversion.simps)
  from create_prices_empty_price
    [of "row (PyStr ''A'') (PyStr ''5'') (PyStr oshibka)"
        "[row (PyStr ''A'') (PyStr ''5'') (PyStr oshibka)]" "[''A'']" oshibka] h m
  show ?thesis
    by blast
qed

text \<open>
  C7, as the spec states it, requires both modules to treat the empty text as a conversion
  failure. \<open>create_prices\<close> of \<open>seller.py\<close> returns normally on a listed row whose price
  text is the docstring's word without digits, and the entry it emits has the empty price.
\<close>


theorem seller_create_prices_passes_empty_price:
  "seller_create_prices [row (PyStr ''A'') (PyStr ''5'') (PyStr oshibka)] [''A''] =
     Inr [\<lparr>auto_action_enabled = ''UNKNOWN'', currency_code = ''RUB'',
            price_offer_id = ''A'', old_price = ''0'', price = ''''\<rparr>]"
  by (simp add: seller_create_prices_def get_row price_conversion_oshibka
      del: price_conversion.simps)

subsection \<open>The inventory loader\<close>

text \<open>
  C8, as the code has it. Whenever \<open>download_stock\<close> returns rows, the file
  \<open>ostatki.xls\<close> is gone from the directory. When the download and the extraction succeed
  and the file is there, a successful parse returns its rows and removes the file, the
  other files staying as extracted; a failing parse raises its exception before the
  removal is reached, and the file stays in the directory.
\<close>

theorem download_stock_cleanup:
  "(fst (download_stock response unzip read_excel dir) = Inr rows \<longrightarrow>
      snd (download_stock response unzip read_excel dir) ''ostatki.xls'' = None)
   \<and> (response = Inr content \<and> unzip content = Inr members
        \<and> extractall members dir ''ostatki.xls'' = Some excel_file \<longrightarrow>
        (read_excel excel_file = Inr rows \<longrightarrow>
           download_stock response unzip read_excel dir =
             (Inr rows, (extractall members dir)(''ostatki.xls'' := None)))
        \<and> (read_excel excel_file = Inl e \<longrightarrow>
           download_stock response unzip read_excel dir = (Inl e, extractall members dir)
           \<and> snd (download_stock response unzip read_excel dir) ''ostatki.xls'' = Some excel_file))"
proof (intro conjI impI)
  assume "fst (download_stock response unzip read_excel dir) = Inr rows"
  then show "snd (download_stock response unzip read_excel dir) ''ostatki.xls'' = None"
    by (auto simp: download_stock_def Let_def split: sum.splits option.splits)
next
  assume a: "response = Inr content \<and> unzip content = Inr members
        \<and> extractall members dir ''ostatki.xls'' = Some excel_file"
  show "download_stock response unzip read_excel dir =
             (Inr rows, (extractall members dir)(''ostatki.xls'' := None))"
    if "read_excel excel_file = Inr rows"
    using a that by (simp add: download_stock_def)
  assume e: "read_excel excel_file = Inl e"
  with a show r: "download_stock response unzip read_excel dir = (Inl e, extractall members dir)"
    by (simp add: download_stock_def)
  from r have "snd (download_stock response unzip read_excel dir) = extractall members dir"
    by simp
  with a show "snd (download_stock response unzip read_excel dir) ''ostatki.xls'' = Some excel_file"
    by simp
qed

theorem download_stock_cleanup_witness:
  "download_stock (Inr ''zip'') (\<lambda>content. Inr [(''ostatki.xls'', ''sheet'')])
       (\<lambda>excel_file. Inr []) Map.empty = (Inr [], Map.empty)
   \<and> snd (download_stock (Inr ''zip'') (\<lambda>content. Inr [(''ostatki.xls'', ''sheet'')])
       (\<lambda>excel_file. Inr []) Map.empty) ''ostatki.xls'' = None
   \<and> extractall [(''ostatki.xls'', ''sheet'')] Map.empty ''ostatki.xls'' = Some ''sheet''
   \<and> download_stock (Inr ''zip'') (\<lambda>content. Inr [(''ostatki.xls'', ''sheet'')])
       (\<lambda>excel_file. Inl ValueError) Map.empty =
         (Inl ValueError, extractall [(''ostatki.xls'', ''sheet'')] Map.empty)"
proof -
  have x: "extractall [(''ostatki.xls'', ''sheet'')] Map.empty ''ostatki.xls'' = Some ''sheet''"
    by (simp add: extractall_def)
  have u: "(extractall [(''ostatki.xls'', ''sheet'')] Map.empty)(''ostatki.xls'' := None) = Map.empty"
    by (simp add: extractall_def)
  note t1 = download_stock_cleanup
    [of "Inr ''zip''" "\<lambda>content. Inr [(''ostatki.xls'', ''sheet'')]" "\<lambda>excel_file. Inr []"
        Map.empty "[]" "''zip''" "[(''ostatki.xls'', ''sheet'')]" "''sheet''" ValueError]
  note t2 = download_stock_cleanup
    [of "Inr ''zip''" "\<lambda>content. Inr [(''ostatki.xls'', ''sheet'')]" "\<lambda>excel_file. Inl ValueError"
        Map.empty "[]" "''zip''" "[(''ostatki.xls'', ''sheet'')]" "''sheet''" ValueError]
  from t1 x u have s: "download_stock (Inr ''zip'') (\<lambda>content. Inr [(''ostatki.xls'', ''sheet'')])
       (\<lambda>excel_file. Inr []) Map.empty = (Inr [], Map.empty)"
    by simp
  from t1 s have g: "snd (download_stock (Inr ''zip'') (\<lambda>content. Inr [(''ostatki.xls'', ''sheet'')])
       (\<lambda>excel_file. Inr []) Map.empty) ''ostatki.xls'' = None"
    by simp
  from t2 x have f: "download_stock (Inr ''zip'') (\<lambda>content. Inr [(''ostatki.xls'', ''sheet'')])
       (\<lambda>excel_file. Inl ValueError) Map.empty =
         (Inl ValueError, extractall [(''ostatki.xls'', ''sheet'')] Map.empty)"
    by simp
  show ?thesis
    by (intro conjI s g x f)
qed

text \<open>
  C8, as the spec states it, requires the file to be removed also when parsing fails. With
  an archive that holds the spreadsheet and a reader that rejects it, the call raises the
  reader's exception and the extracted file is still there.
\<close>

theorem download_stock_leaves_file:
  "fst (download_stock (Inr ''zip'') (\<lambda>content. Inr [(''ostatki.xls'', ''sheet'')])
       (\<lambda>excel_file. Inl ValueError) Map.empty) = Inl ValueError
   \<and> snd (download_stock (Inr ''zip'') (\<lambda>content. Inr [(''ostatki.xls'', ''sheet'')])
       (\<lambda>excel_file. Inl ValueError) Map.empty) ''ostatki.xls'' = Some ''sheet''"
  by (simp add: download_stock_def extractall_def)

subsection \<open>The identifier listing\<close>

lemma ozon_accumulated_Suc:
  "ozon_accumulated api (Suc k) =
     ozon_accumulated api k @ (case ozon_answer api k of Inl e \<Rightarrow> [] | Inr r \<Rightarrow> result_items r)"
  by (simp add: ozon_accumulated_def)

lemma seller_offer_ids_loop_step:
  "seller_offer_ids_loop api k (ozon_cursor api k) (ozon_accumulated api k) =
     (if ozon_continues api k then
        seller_offer_ids_loop api (Suc k) (ozon_cursor api (Suc k)) (ozon_accumulated api (Suc k))
      else Some (case ozon_answer api k of
                   Inl e \<Rightarrow> Inl e
                 | Inr r \<Rightarrow> Inr (ozon_accumulated api (Suc k))))"
proof (cases "ozon_answer api k")
  case (Inl e)
  then have "api k (ozon_cursor api k) = Inl e"
    by (simp add: ozon_answer_def)
  with Inl show ?thesis
    by (subst seller_offer_ids_loop.simps) (simp add: ozon_continues_def)
next
  case (Inr r)
  then have a: "api k (ozon_cursor api k) = Inr r"
    by (simp add: ozon_answer_def)
  have acc: "ozon_accumulated api (Suc k) = ozon_accumulated api k @ result_items r"
    by (simp add: ozon_accumulated_Suc Inr)
  have cur: "ozon_cursor api (Suc k) = last_id r"
    by (simp add: a)
  show ?thesis
    by (subst seller_offer_ids_loop.simps)
      (simp add: a Inr ozon_continues_def Let_def acc cur del: ozon_cursor.simps)
qed


lemma seller_offer_ids_loop_stops:
  "(\<forall>j<d. ozon_continues api (k + j)) \<Longrightarrow> \<not> ozon_continues api (k + d) \<Longrightarrow>
   seller_offer_ids_loop api k (ozon_cursor api k) (ozon_accumulated api k) =
     Some (case ozon_answer api (k + d) of
             Inl e \<Rightarrow> Inl e
           | Inr r \<Rightarrow> Inr (ozon_accumulated api (Suc (k + d))))"
proof (induction d arbitrary: k)
  case 0
  then have n: "\<not> ozon_continues api k"
    by simp
  have "seller_offer_ids_loop api k (ozon_cursor api k) (ozon_accumulated api k) =
     Some (case ozon_answer api k of
             Inl e \<Rightarrow> Inl e
           | Inr r \<Rightarrow> Inr (ozon_accumulated api (Suc k)))"
    by (subst seller_offer_ids_loop_step) (simp only: n if_False)
  then show ?case
    by (simp only: add_0_right)
next
  case (Suc d)
  from Suc.prems(1) have c: "ozon_continues api k"
    by (metis add.right_neutral zero_less_Suc)
  have eq: "k + Suc d = Suc k + d"
    by simp
  have "\<forall>j<d. ozon_continues api (Suc k + j)"
  proof (intro allI impI)
    fix j assume "j < d"
    then have "Suc j < Suc d" by simp
    with Suc.prems(1) have "ozon_continues api (k + Suc j)" by blast
    then show "ozon_continues api (Suc k + j)" by simp
  qed
  moreover have "\<not> ozon_continues api (Suc k + d)"
    using Suc.prems(2) unfolding eq .
  ultimately have "seller_offer_ids_loop api (Suc k) (ozon_cursor api (Suc k))
      (ozon_accumulated api (Suc k)) =
     Some (case ozon_answer api (Suc k + d) of
             Inl e \<Rightarrow> Inl e
           | Inr r \<Rightarrow> Inr (ozon_accumulated api (Suc (Suc k + d))))"
    by (rule Suc.IH)
  then have "seller_offer_ids_loop api k (ozon_cursor api k) (ozon_accumulated api k) =
     Some (case ozon_answer api (Suc k + d) of
             Inl e \<Rightarrow> Inl e
           | Inr r \<Rightarrow> Inr (ozon_accumulated api (Suc (Suc k + d))))"
    by (subst seller_offer_ids_loop_step) (simp only: c if_True)
  then show ?case
    by (simp only: eq)
qed

lemma seller_offer_ids_loop_returns:
  assumes "seller_offer_ids_loop api k c pl = Some res"
  shows "c = ozon_cursor api k \<longrightarrow> pl = ozon_accumulated api k \<longrightarrow>
     (\<exists>d. (\<forall>j<d. ozon_continues api (k + j)) \<and> \<not> ozon_continues api (k + d)
        \<and> res = (case ozon_answer api (k + d) of
                    Inl e \<Rightarrow> Inl e
                  | Inr r \<Rightarrow> Inr (ozon_accumulated api (Suc (k + d)))))"
proof (rule seller_offer_ids_loop.raw_induct
    [where P = "\<lambda>api k c pl res. c = ozon_cursor api k \<longrightarrow> pl = ozon_accumulated api k \<longrightarrow>
     (\<exists>d. (\<forall>j<d. ozon_continues api (k + j)) \<and> \<not> ozon_continues api (k + d)
        \<and> res = (case ozon_answer api (k + d) of
                    Inl e \<Rightarrow> Inl e
                  | Inr r \<Rightarrow> Inr (ozon_accumulated api (Suc (k + d)))))", OF _ assms])
  fix lp api k c pl res
  assume ih: "\<And>api k c pl res. lp api k c pl = Some res \<Longrightarrow>
     c = ozon_cursor api k \<longrightarrow> pl = ozon_accumulated api k \<longrightarrow>
     (\<exists>d. (\<forall>j<d. ozon_continues api (k + j)) \<and> \<not> ozon_continues api (k + d)
        \<and> res = (case ozon_answer api (k + d) of
                    Inl e \<Rightarrow> Inl e
                  | Inr r \<Rightarrow> Inr (ozon_accumulated api (Suc (k + d)))))"
  assume body: "(case api k c of
        Inl e \<Rightarrow> Some (Inl e)
      | Inr some_prod \<Rightarrow>
          (let product_list' = pl @ result_items some_prod
           in if total some_prod = int (length product_list') then Some (Inr product_list')
              else lp api (Suc k) (last_id some_prod) product_list')) = Some res"
  show "c = ozon_cursor api k \<longrightarrow> pl = ozon_accumulated api k \<longrightarrow>
     (\<exists>d. (\<forall>j<d. ozon_continues api (k + j)) \<and> \<not> ozon_continues api (k + d)
        \<and> res = (case ozon_answer api (k + d) of
                    Inl e \<Rightarrow> Inl e
                  | Inr r \<Rightarrow> Inr (ozon_accumulated api (Suc (k + d)))))"
  proof (intro impI)
    assume c: "c = ozon_cursor api k" and pl: "pl = ozon_accumulated api k"
    have stop: "\<exists>d. (\<forall>j<d. ozon_continues api (k + j)) \<and> \<not> ozon_continues api (k + d)
        \<and> res = (case ozon_answer api (k + d) of
                    Inl e \<Rightarrow> Inl e
                  | Inr r \<Rightarrow> Inr (ozon_accumulated api (Suc (k + d))))"
      if n: "\<not> ozon_continues api k"
        and r: "res = (case ozon_answer api k of
                    Inl e \<Rightarrow> Inl e
                  | Inr r \<Rightarrow> Inr (ozon_accumulated api (Suc k)))"
    proof (intro exI [of _ 0] conjI)
      show "\<forall>j<0. ozon_continues api (k + j)"
        by simp
      show "\<not> ozon_continues api (k + 0)"
        unfolding add_0_right by (rule n)
      show "res = (case ozon_answer api (k + 0) of
                    Inl e \<Rightarrow> Inl e
                  | Inr r \<Rightarrow> Inr (ozon_accumulated api (Suc (k + 0))))"
        unfolding add_0_right by (rule r)
    qed
    show "\<exists>d. (\<forall>j<d. ozon_continues api (k + j)) \<and> \<not> ozon_continues api (k + d)
        \<and> res = (case ozon_answer api (k + d) of
                    Inl e \<Rightarrow> Inl e
                  | Inr r \<Rightarrow> Inr (ozon_accumulated api (Suc (k + d))))"
    proof (cases "ozon_answer api k")
      case (Inl e)
      then have a: "api k c = Inl e"
        by (simp only: ozon_answer_def c)
      from body have "res = Inl e"
        by (simp only: a sum.case option.inject)
      then have "res = (case ozon_answer api k of
                    Inl e \<Rightarrow> Inl e
                  | Inr r \<Rightarrow> Inr (ozon_accumulated api (Suc k)))"
        by (simp only: Inl sum.case)
      moreover from Inl have "\<not> ozon_continues api k"
        by (simp add: ozon_continues_def)
      ultimately show ?thesis
        by (intro stop)
    next
      case (Inr r)
      then have a: "api k c = Inr r"
        by (simp only: ozon_answer_def c)
      have acc: "ozon_accumulated api (Suc k) = pl @ result_items r"
        by (simp add: ozon_accumulated_Suc Inr pl)
      have cur: "ozon_cursor api (Suc k) = last_id r"
        using a by (simp add: c)
      from body have body':
        "(if total r = int (length (pl @ result_items r)) then Some (Inr (pl @ result_items r))
          else lp api (Suc k) (last_id r) (pl @ result_items r)) = Some res"
        by (simp only: a sum.case Let_def)
      have cont: "ozon_continues api k \<longleftrightarrow> total r \<noteq> int (length (pl @ result_items r))"
        by (simp add: ozon_continues_def Inr acc)
      show ?thesis
      proof (cases "ozon_continues api k")
        case False
        with cont have "total r = int (length (pl @ result_items r))"
          by simp
        with body' have "res = Inr (pl @ result_items r)"
          by simp
        then have "res = (case ozon_answer api k of
                    Inl e \<Rightarrow> Inl e
                  | Inr r \<Rightarrow> Inr (ozon_accumulated api (Suc k)))"
          by (simp only: Inr sum.case acc)
        with False show ?thesis
          by (intro stop)
      next
        case True
        with cont have "total r \<noteq> int (length (pl @ result_items r))"
          by simp
        with body' have "lp api (Suc k) (last_id r) (pl @ result_items r) = Some res"
          by simp
        then have "lp api (Suc k) (ozon_cursor api (Suc k)) (ozon_accumulated api (Suc k)) = Some res"
          by (simp only: acc cur)
        from ih [OF this] have "\<exists>d. (\<forall>j<d. ozon_continues api (Suc k + j))
            \<and> \<not> ozon_continues api (Suc k + d)
            \<and> res = (case ozon_answer api (Suc k + d) of
                      Inl e \<Rightarrow> Inl e
                    | Inr r \<Rightarrow> Inr (ozon_accumulated api (Suc (Suc k + d))))"
          by (rule mp [OF mp]) (rule refl)+
        then obtain d where
          d1: "\<forall>j<d. ozon_continues api (Suc k + j)"
          and d2: "\<not> ozon_continues api (Suc k + d)"
          and d3: "res = (case ozon_answer api (Suc k + d) of
                      Inl e \<Rightarrow> Inl e
                    | Inr r \<Rightarrow> Inr (ozon_accumulated api (Suc (Suc k + d))))"
          by (elim exE conjE)
        have eq: "k + Suc d = Suc k + d"
          by simp
        show ?thesis
        proof (intro exI [of _ "Suc d"] conjI allI impI)
          fix j assume "j < Suc d"
          show "ozon_continues api (k + j)"
          proof (cases j)
            case 0
            with True show ?thesis by simp
          next
            case (Suc i)
            with \<open>j < Suc d\<close> have "i < d" by simp
            with d1 have "ozon_continues api (Suc k + i)" by blast
            with Suc show ?thesis by simp
          qed
        next
          show "\<not> ozon_continues api (k + Suc d)"
            using d2 unfolding eq .
          show "res = (case ozon_answer api (k + Suc d) of
                      Inl e \<Rightarrow> Inl e
                    | Inr r \<Rightarrow> Inr (ozon_accumulated api (Suc (k + Suc d))))"
            using d3 unfolding eq .
        qed
      qed
    qed
  qed
qed

lemma market_accumulated_Suc:
  "market_accumulated api (Suc k) =
     market_accumulated api k @
       (case market_answer api k of Inl e \<Rightarrow> [] | Inr r \<Rightarrow> offerMappingEntries r)"
  by (simp add: market_accumulated_def)

lemma market_loop_body:
  assumes a: "api k c = Inr r"
  shows "(case api k c of
        Inl e \<Rightarrow> Some (Inl e)
      | Inr some_prod \<Rightarrow>
          (let product_list' = pl @ offerMappingEntries some_prod
           in case nextPageToken (paging some_prod) of
                None \<Rightarrow> Some (Inr product_list')
              | Some page' \<Rightarrow>
                  if page' = [] then Some (Inr product_list')
                  else lp api (Suc k) page' product_list')) =
     (if next_page r = [] then Some (Inr (pl @ offerMappingEntries r))
      else lp api (Suc k) (next_page r) (pl @ offerMappingEntries r))"
  by (simp add: a Let_def next_page_def split: option.splits)

lemma market_offer_ids_loop_step:
  "market_offer_ids_loop api k (market_cursor api k) (market_accumulated api k) =
     (if market_continues api k then
        market_offer_ids_loop api (Suc k) (market_cursor api (Suc k))
          (market_accumulated api (Suc k))
      else Some (case market_answer api k of
                   Inl e \<Rightarrow> Inl e
                 | Inr r \<Rightarrow> Inr (market_accumulated api (Suc k))))"
proof (cases "market_answer api k")
  case (Inl e)
  then have "api k (market_cursor api k) = Inl e"
    by (simp add: market_answer_def)
  with Inl show ?thesis
    by (subst market_offer_ids_loop.simps) (simp add: market_continues_def)
next
  case (Inr r)
  then have a: "api k (market_cursor api k) = Inr r"
    by (simp add: market_answer_def)
  have acc: "market_accumulated api (Suc k) = market_accumulated api k @ offerMappingEntries r"
    by (simp add: market_accumulated_Suc Inr)
  have cur: "market_cursor api (Suc k) = next_page r"
    by (simp add: a)
  have "market_offer_ids_loop api k (market_cursor api k) (market_accumulated api k) =
      (if next_page r = [] then Some (Inr (market_accumulated api k @ offerMappingEntries r))
       else market_offer_ids_loop api (Suc k) (next_page r)
              (market_accumulated api k @ offerMappingEntries r))"
    by (subst market_offer_ids_loop.simps) (rule market_loop_body [where api = api and k = k and c = "market_cursor api k" and r = r, OF a])
  then show ?thesis
    by (simp add: Inr market_continues_def acc cur del: market_cursor.simps)
qed

lemma market_offer_ids_loop_stops:
  "(\<forall>j<d. market_continues api (k + j)) \<Longrightarrow> \<not> market_continues api (k + d) \<Longrightarrow>
   market_offer_ids_loop api k (market_cursor api k) (market_accumulated api k) =
     Some (case market_answer api (k + d) of
             Inl e \<Rightarrow> Inl e
           | Inr r \<Rightarrow> Inr (market_accumulated api (Suc (k + d))))"
proof (induction d arbitrary: k)
  case 0
  then have n: "\<not> market_continues api k"
    by simp
  have "market_offer_ids_loop api k (market_cursor api k) (market_accumulated api k) =
     Some (case market_answer api k of
             Inl e \<Rightarrow> Inl e
           | Inr r \<Rightarrow> Inr (market_accumulated api (Suc k)))"
    by (subst market_offer_ids_loop_step) (simp only: n if_False)
  then show ?case
    by (simp only: add_0_right)
next
  case (Suc d)
  from Suc.prems(1) have c: "market_continues api k"
    by (metis add.right_neutral zero_less_Suc)
  have eq: "k + Suc d = Suc k + d"
    by simp
  have "\<forall>j<d. market_continues api (Suc k + j)"
  proof (intro allI impI)
    fix j assume "j < d"
    then have "Suc j < Suc d" by simp
    with Suc.prems(1) have "market_continues api (k + Suc j)" by blast
    then show "market_continues api (Suc k + j)" by simp
  qed
  moreover have "\<not> market_continues api (Suc k + d)"
    using Suc.prems(2) unfolding eq .
  ultimately have "market_offer_ids_loop api (Suc k) (market_cursor api (Suc k))
      (market_accumulated api (Suc k)) =
     Some (case market_answer api (Suc k + d) of
             Inl e \<Rightarrow> Inl e
           | Inr r \<Rightarrow> Inr (market_accumulated api (Suc (Suc k + d))))"
    by (rule Suc.IH)
  then have "market_offer_ids_loop api k (market_cursor api k) (market_accumulated api k) =
     Some (case market_answer api (Suc k + d) of
             Inl e \<Rightarrow> Inl e
           | Inr r \<Rightarrow> Inr (market_accumulated api (Suc (Suc k + d))))"
    by (subst market_offer_ids_loop_step) (simp only: c if_True)
  then show ?case
    by (simp only: eq)
qed

lemma market_offer_ids_loop_returns:
  assumes "market_offer_ids_loop api k c pl = Some res"
  shows "c = market_cursor api k \<longrightarrow> pl = market_accumulated api k \<longrightarrow>
     (\<exists>d. (\<forall>j<d. market_continues api (k + j)) \<and> \<not> market_continues api (k + d)
        \<and> res = (case market_answer api (k + d) of
                    Inl e \<Rightarrow> Inl e
                  | Inr r \<Rightarrow> Inr (market_accumulated api (Suc (k + d)))))"
proof (rule market_offer_ids_loop.raw_induct
    [where P = "\<lambda>api k c pl res. c = market_cursor api k \<longrightarrow> pl = market_accumulated api k \<longrightarrow>
     (\<exists>d. (\<forall>j<d. market_continues api (k + j)) \<and> \<not> market_continues api (k + d)
        \<and> res = (case market_answer api (k + d) of
                    Inl e \<Rightarrow> Inl e
                  | Inr r \<Rightarrow> Inr (market_accumulated api (Suc (k + d)))))", OF _ assms])
  fix lp api k c pl res
  assume ih: "\<And>api k c pl res. lp api k c pl = Some res \<Longrightarrow>
     c = market_cursor api k \<longrightarrow> pl = market_accumulated api k \<longrightarrow>
     (\<exists>d. (\<forall>j<d. market_continues api (k + j)) \<and> \<not> market_continues api (k + d)
        \<and> res = (case market_answer api (k + d) of
                    Inl e \<Rightarrow> Inl e
                  | Inr r \<Rightarrow> Inr (market_accumulated api (Suc (k + d)))))"
  assume body: "(case api k c of
        Inl e \<Rightarrow> Some (Inl e)
      | Inr some_prod \<Rightarrow>
          (let product_list' = pl @ offerMappingEntries some_prod
           in case nextPageToken (paging some_prod) of
                None \<Rightarrow> Some (Inr product_list')
              | Some page' \<Rightarrow>
                  if page' = [] then Some (Inr product_list')
                  else lp api (Suc k) page' product_list')) = Some res"
  show "c = market_cursor api k \<longrightarrow> pl = market_accumulated api k \<longrightarrow>
     (\<exists>d. (\<forall>j<d. market_continues api (k + j)) \<and> \<not> market_continues api (k + d)
        \<and> res = (case market_answer api (k + d) of
                    Inl e \<Rightarrow> Inl e
                  | Inr r \<Rightarrow> Inr (market_accumulated api (Suc (k + d)))))"
  proof (intro impI)
    assume c: "c = market_cursor api k" and pl: "pl = market_accumulated api k"
    have stop: "\<exists>d. (\<forall>j<d. market_continues api (k + j)) \<and> \<not> market_continues api (k + d)
        \<and> res = (case market_answer api (k + d) of
                    Inl e \<Rightarrow> Inl e
                  | Inr r \<Rightarrow> Inr (market_accumulated api (Suc (k + d))))"
      if n: "\<not> market_continues api k"
        and r: "res = (case market_answer api k of
                    Inl e \<Rightarrow> Inl e
                  | Inr r \<Rightarrow> Inr (market_accumulated api (Suc k)))"
    proof (intro exI [of _ 0] conjI)
      show "\<forall>j<0. market_continues api (k + j)"
        by simp
      show "\<not> market_continues api (k + 0)"
        unfolding add_0_right by (rule n)
      show "res = (case market_answer api (k + 0) of
                    Inl e \<Rightarrow> Inl e
                  | Inr r \<Rightarrow> Inr (market_accumulated api (Suc (k + 0))))"
        unfolding add_0_right by (rule r)
    qed
    show "\<exists>d. (\<forall>j<d. market_continues api (k + j)) \<and> \<not> market_continues api (k + d)
        \<and> res = (case market_answer api (k + d) of
                    Inl e \<Rightarrow> Inl e
                  | Inr r \<Rightarrow> Inr (market_accumulated api (Suc (k + d))))"
    proof (cases "market_answer api k")
      case (Inl e)
      then have a: "api k c = Inl e"
        by (simp only: market_answer_def c)
      from body have "res = Inl e"
        by (simp only: a sum.case option.inject)
      then have "res = (case market_answer api k of
                    Inl e \<Rightarrow> Inl e
                  | Inr r \<Rightarrow> Inr (market_accumulated api (Suc k)))"
        by (simp only: Inl sum.case)
      moreover from Inl have "\<not> market_continues api k"
        by (simp add: market_continues_def)
      ultimately show ?thesis
        by (intro stop)
    next
      case (Inr r)
      then have a: "api k c = Inr r"
        by (simp only: market_answer_def c)
      have acc: "market_accumulated api (Suc k) = pl @ offerMappingEntries r"
        by (simp add: market_accumulated_Suc Inr pl)
      have cur: "market_cursor api (Suc k) = next_page r"
        using a by (simp add: c)
      from body have body':
        "(if next_page r = [] then Some (Inr (pl @ offerMappingEntries r))
          else lp api (Suc k) (next_page r) (pl @ offerMappingEntries r)) = Some res"
        by (simp only: market_loop_body [where api = api and k = k and c = c and r = r, OF a])
      have cont: "market_continues api k \<longleftrightarrow> next_page r \<noteq> []"
        by (simp add: market_continues_def Inr)
      show ?thesis
      proof (cases "market_continues api k")
        case False
        with cont have "next_page r = []"
          by simp
        with body' have "res = Inr (pl @ offerMappingEntries r)"
          by simp
        then have "res = (case market_answer api k of
                    Inl e \<Rightarrow> Inl e
                  | Inr r \<Rightarrow> Inr (market_accumulated api (Suc k)))"
          by (simp only: Inr sum.case acc)
        with False show ?thesis
          by (intro stop)
      next
        case True
        with cont have "next_page r \<noteq> []"
          by simp
        with body' have "lp api (Suc k) (next_page r) (pl @ offerMappingEntries r) = Some res"
          by simp
        then have "lp api (Suc k) (market_cursor api (Suc k)) (market_accumulated api (Suc k)) =
            Some res"
          by (simp only: acc cur)
        from ih [OF this] have "\<exists>d. (\<forall>j<d. market_continues api (Suc k + j))
            \<and> \<not> market_continues api (Suc k + d)
            \<and> res = (case market_answer api (Suc k + d) of
                      Inl e \<Rightarrow> Inl e
                    | Inr r \<Rightarrow> Inr (market_accumulated api (Suc (Suc k + d))))"
          by (rule mp [OF mp]) (rule refl)+
        then obtain d where
          d1: "\<forall>j<d. market_continues api (Suc k + j)"
          and d2: "\<not> market_continues api (Suc k + d)"
          and d3: "res = (case market_answer api (Suc k + d) of
                      Inl e \<Rightarrow> Inl e
                    | Inr r \<Rightarrow> Inr (market_accumulated api (Suc (Suc k + d))))"
          by (elim exE conjE)
        have eq: "k + Suc d = Suc k + d"
          by simp
        show ?thesis
        proof (intro exI [of _ "Suc d"] conjI allI impI)
          fix j assume "j < Suc d"
          show "market_continues api (k + j)"
          proof (cases j)
            case 0
            with True show ?thesis by simp
          next
            case (Suc i)
            with \<open>j < Suc d\<close> have "i < d" by simp
            with d1 have "market_continues api (Suc k + i)" by blast
            with Suc show ?thesis by simp
          qed
        next
          show "\<not> market_continues api (k + Suc d)"
            using d2 unfolding eq .
          show "res = (case market_answer api (k + Suc d) of
                      Inl e \<Rightarrow> Inl e
                    | Inr r \<Rightarrow> Inr (market_accumulated api (Suc (k + Suc d))))"
            using d3 unfolding eq .
        qed
      qed
    qed
  qed
qed

lemma seller_offer_ids_loop_outcome:
  "seller_offer_ids_loop api 0 [] [] = Some res \<longleftrightarrow>
     (\<exists>n. (\<forall>j<n. ozon_continues api j) \<and> \<not> ozon_continues api n
        \<and> res = (case ozon_answer api n of
                    Inl e \<Rightarrow> Inl e
                  | Inr r \<Rightarrow> Inr (ozon_accumulated api (Suc n))))"
proof
  assume "seller_offer_ids_loop api 0 [] [] = Some res"
  from seller_offer_ids_loop_returns [OF this]
  have "\<exists>d. (\<forall>j<d. ozon_continues api (0 + j)) \<and> \<not> ozon_continues api (0 + d)
        \<and> res = (case ozon_answer api (0 + d) of
                    Inl e \<Rightarrow> Inl e
                  | Inr r \<Rightarrow> Inr (ozon_accumulated api (Suc (0 + d))))"
    by (simp add: ozon_accumulated_def)
  then show "\<exists>n. (\<forall>j<n. ozon_continues api j) \<and> \<not> ozon_continues api n
        \<and> res = (case ozon_answer api n of
                    Inl e \<Rightarrow> Inl e
                  | Inr r \<Rightarrow> Inr (ozon_accumulated api (Suc n)))"
    unfolding add_0 .
next
  assume "\<exists>n. (\<forall>j<n. ozon_continues api j) \<and> \<not> ozon_continues api n
        \<and> res = (case ozon_answer api n of
                    Inl e \<Rightarrow> Inl e
                  | Inr r \<Rightarrow> Inr (ozon_accumulated api (Suc n)))"
  then obtain n where n: "\<forall>j<n. ozon_continues api (0 + j)" "\<not> ozon_continues api (0 + n)"
    and r: "res = (case ozon_answer api (0 + n) of
                    Inl e \<Rightarrow> Inl e
                  | Inr r \<Rightarrow> Inr (ozon_accumulated api (Suc (0 + n))))"
    unfolding add_0 by blast
  from seller_offer_ids_loop_stops [OF n] r
  have "seller_offer_ids_loop api 0 (ozon_cursor api 0) (ozon_accumulated api 0) = Some res"
    by (simp only:)
  then show "seller_offer_ids_loop api 0 [] [] = Some res"
    by (simp add: ozon_accumulated_def)
qed

lemma ozon_not_continues:
  "\<not> ozon_continues api n \<longleftrightarrow> (\<exists>e. ozon_answer api n = Inl e) \<or> ozon_total_reached api n"
  by (cases "ozon_answer api n") (simp_all add: ozon_continues_def ozon_total_reached_def)

lemma ozon_total_reached_answer: "ozon_total_reached api n \<Longrightarrow> \<exists>r. ozon_answer api n = Inr r"
  by (cases "ozon_answer api n") (simp_all add: ozon_total_reached_def)

lemma first_stop:
  fixes C :: "nat \<Rightarrow> bool"
  assumes "\<not> C m"
  shows "\<exists>n. (\<forall>j<n. C j) \<and> \<not> C n"
proof -
  let ?n = "LEAST n. \<not> C n"
  from assms have "\<not> C ?n"
    by (rule LeastI [of "\<lambda>n. \<not> C n"])
  moreover have "\<forall>j<?n. C j"
    using not_less_Least [of _ "\<lambda>n. \<not> C n"] by blast
  ultimately show ?thesis
    by blast
qed

lemma seller_get_offer_ids_outcomes:
  "(seller_get_offer_ids api = Some (Inr ids) \<longleftrightarrow>
      (\<exists>n. (\<forall>j<n. ozon_continues api j) \<and> ozon_total_reached api n
         \<and> ids = map product_offer_id (ozon_accumulated api (Suc n))))"
  "(seller_get_offer_ids api = Some (Inl e) \<longleftrightarrow>
      (\<exists>n. (\<forall>j<n. ozon_continues api j) \<and> ozon_answer api n = Inl e))"
  "(seller_get_offer_ids api = None \<longleftrightarrow> (\<forall>n. ozon_continues api n))"
proof -
  let ?loop = "seller_offer_ids_loop api 0 [] []"
  have inr: "?loop = Some (Inr pl) \<longleftrightarrow>
      (\<exists>n. (\<forall>j<n. ozon_continues api j) \<and> ozon_total_reached api n
         \<and> pl = ozon_accumulated api (Suc n))" for pl
  proof
    assume "?loop = Some (Inr pl)"
    then obtain n where n: "\<forall>j<n. ozon_continues api j" "\<not> ozon_continues api n"
      and r: "Inr pl = (case ozon_answer api n of
                    Inl e \<Rightarrow> Inl e
                  | Inr r \<Rightarrow> Inr (ozon_accumulated api (Suc n)))"
      unfolding seller_offer_ids_loop_outcome by blast
    from r obtain r' where a: "ozon_answer api n = Inr r'"
      by (cases "ozon_answer api n") simp_all
    with r have "pl = ozon_accumulated api (Suc n)"
      by simp
    moreover from n(2) a have "ozon_total_reached api n"
      by (simp add: ozon_not_continues)
    ultimately show "\<exists>n. (\<forall>j<n. ozon_continues api j) \<and> ozon_total_reached api n
         \<and> pl = ozon_accumulated api (Suc n)"
      using n(1) by blast
  next
    assume "\<exists>n. (\<forall>j<n. ozon_continues api j) \<and> ozon_total_reached api n
         \<and> pl = ozon_accumulated api (Suc n)"
    then obtain n where n: "\<forall>j<n. ozon_continues api j" "ozon_total_reached api n"
      and p: "pl = ozon_accumulated api (Suc n)"
      by blast
    from n(2) obtain r where a: "ozon_answer api n = Inr r"
      using ozon_total_reached_answer by blast
    from n(2) have "\<not> ozon_continues api n"
      by (simp add: ozon_not_continues)
    moreover from a p have "Inr pl = (case ozon_answer api n of
                    Inl e \<Rightarrow> Inl e
                  | Inr r \<Rightarrow> Inr (ozon_accumulated api (Suc n)))"
      by simp
    ultimately show "?loop = Some (Inr pl)"
      unfolding seller_offer_ids_loop_outcome using n(1) by blast
  qed
  have inl: "?loop = Some (Inl e) \<longleftrightarrow>
      (\<exists>n. (\<forall>j<n. ozon_continues api j) \<and> ozon_answer api n = Inl e)"
  proof
    assume "?loop = Some (Inl e)"
    then obtain n where n: "\<forall>j<n. ozon_continues api j"
      and r: "Inl e = (case ozon_answer api n of
                    Inl e \<Rightarrow> Inl e
                  | Inr r \<Rightarrow> Inr (ozon_accumulated api (Suc n)))"
      unfolding seller_offer_ids_loop_outcome by blast
    from r have "ozon_answer api n = Inl e"
      by (cases "ozon_answer api n") simp_all
    with n show "\<exists>n. (\<forall>j<n. ozon_continues api j) \<and> ozon_answer api n = Inl e"
      by blast
  next
    assume "\<exists>n. (\<forall>j<n. ozon_continues api j) \<and> ozon_answer api n = Inl e"
    then obtain n where n: "\<forall>j<n. ozon_continues api j" and a: "ozon_answer api n = Inl e"
      by blast
    from a have "\<not> ozon_continues api n"
      by (simp add: ozon_continues_def)
    moreover from a have "Inl e = (case ozon_answer api n of
                    Inl e \<Rightarrow> Inl e
                  | Inr r \<Rightarrow> Inr (ozon_accumulated api (Suc n)))"
      by simp
    ultimately show "?loop = Some (Inl e)"
      unfolding seller_offer_ids_loop_outcome using n by blast
  qed
  have none: "?loop = None \<longleftrightarrow> (\<forall>n. ozon_continues api n)"
  proof
    assume l: "?loop = None"
    show "\<forall>n. ozon_continues api n"
    proof (rule ccontr)
      assume "\<not> (\<forall>n. ozon_continues api n)"
      then obtain m where "\<not> ozon_continues api m"
        by blast
      from first_stop [of "ozon_continues api", OF this]
      obtain n where "\<forall>j<n. ozon_continues api j" "\<not> ozon_continues api n"
        by blast
      then have "\<exists>res. ?loop = Some res"
        unfolding seller_offer_ids_loop_outcome by blast
      with l show False
        by simp
    qed
  next
    assume a: "\<forall>n. ozon_continues api n"
    show "?loop = None"
    proof (cases ?loop)
      case None
      then show ?thesis .
    next
      case (Some res)
      then obtain n where "\<not> ozon_continues api n"
        unfolding seller_offer_ids_loop_outcome by blast
      with a show ?thesis
        by blast
    qed
  qed
  show "seller_get_offer_ids api = Some (Inr ids) \<longleftrightarrow>
      (\<exists>n. (\<forall>j<n. ozon_continues api j) \<and> ozon_total_reached api n
         \<and> ids = map product_offer_id (ozon_accumulated api (Suc n)))"
  proof
    assume "seller_get_offer_ids api = Some (Inr ids)"
    then obtain pl where "?loop = Some (Inr pl)" and "ids = map product_offer_id pl"
      by (auto simp: seller_get_offer_ids_def split: option.splits sum.splits)
    then show "\<exists>n. (\<forall>j<n. ozon_continues api j) \<and> ozon_total_reached api n
         \<and> ids = map product_offer_id (ozon_accumulated api (Suc n))"
      unfolding inr by blast
  next
    assume "\<exists>n. (\<forall>j<n. ozon_continues api j) \<and> ozon_total_reached api n
         \<and> ids = map product_offer_id (ozon_accumulated api (Suc n))"
    then obtain n where n: "\<forall>j<n. ozon_continues api j" "ozon_total_reached api n"
      and i: "ids = map product_offer_id (ozon_accumulated api (Suc n))"
      by blast
    from n have "?loop = Some (Inr (ozon_accumulated api (Suc n)))"
      unfolding inr by blast
    with i show "seller_get_offer_ids api = Some (Inr ids)"
      by (simp add: seller_get_offer_ids_def)
  qed
  have "seller_get_offer_ids api = Some (Inl e) \<longleftrightarrow> ?loop = Some (Inl e)"
    by (auto simp: seller_get_offer_ids_def split: option.splits sum.splits)
  with inl show "seller_get_offer_ids api = Some (Inl e) \<longleftrightarrow>
      (\<exists>n. (\<forall>j<n. ozon_continues api j) \<and> ozon_answer api n = Inl e)"
    by simp
  have "seller_get_offer_ids api = None \<longleftrightarrow> ?loop = None"
    by (auto simp: seller_get_offer_ids_def split: option.splits sum.splits)
  with none show "seller_get_offer_ids api = None \<longleftrightarrow> (\<forall>n. ozon_continues api n)"
    by simp
qed

lemma market_offer_ids_loop_outcome:
  "market_offer_ids_loop api 0 [] [] = Some res \<longleftrightarrow>
     (\<exists>n. (\<forall>j<n. market_continues api j) \<and> \<not> market_continues api n
        \<and> res = (case market_answer api n of
                    Inl e \<Rightarrow> Inl e
                  | Inr r \<Rightarrow> Inr (market_accumulated api (Suc n))))"
proof
  assume "market_offer_ids_loop api 0 [] [] = Some res"
  from market_offer_ids_loop_returns [OF this]
  have "\<exists>d. (\<forall>j<d. market_continues api (0 + j)) \<and> \<not> market_continues api (0 + d)
        \<and> res = (case market_answer api (0 + d) of
                    Inl e \<Rightarrow> Inl e
                  | Inr r \<Rightarrow> Inr (market_accumulated api (Suc (0 + d))))"
    by (simp add: market_accumulated_def)
  then show "\<exists>n. (\<forall>j<n. market_continues api j) \<and> \<not> market_continues api n
        \<and> res = (case market_answer api n of
                    Inl e \<Rightarrow> Inl e
                  | Inr r \<Rightarrow> Inr (market_accumulated api (Suc n)))"
    unfolding add_0 .
next
  assume "\<exists>n. (\<forall>j<n. market_continues api j) \<and> \<not> market_continues api n
        \<and> res = (case market_answer api n of
                    Inl e \<Rightarrow> Inl e
                  | Inr r \<Rightarrow> Inr (market_accumulated api (Suc n)))"
  then obtain n where n: "\<forall>j<n. market_continues api (0 + j)" "\<not> market_continues api (0 + n)"
    and r: "res = (case market_answer api (0 + n) of
                    Inl e \<Rightarrow> Inl e
                  | Inr r \<Rightarrow> Inr (market_accumulated api (Suc (0 + n))))"
    unfolding add_0 by blast
  from market_offer_ids_loop_stops [OF n] r
  have "market_offer_ids_loop api 0 (market_cursor api 0) (market_accumulated api 0) = Some res"
    by (simp only:)
  then show "market_offer_ids_loop api 0 [] [] = Some res"
    by (simp add: market_accumulated_def)
qed

lemma market_not_continues:
  "\<not> market_continues api n \<longleftrightarrow> (\<exists>e. market_answer api n = Inl e) \<or> market_cursor_empty api n"
  by (cases "market_answer api n") (simp_all add: market_continues_def market_cursor_empty_def)

lemma market_cursor_empty_answer: "market_cursor_empty api n \<Longrightarrow> \<exists>r. market_answer api n = Inr r"
  by (cases "market_answer api n") (simp_all add: market_cursor_empty_def)

lemma market_get_offer_ids_outcomes:
  "(market_get_offer_ids api = Some (Inr ids) \<longleftrightarrow>
      (\<exists>n. (\<forall>j<n. market_continues api j) \<and> market_cursor_empty api n
         \<and> ids = map (\<lambda>product. shopSku (offer product)) (market_accumulated api (Suc n))))"
  "(market_get_offer_ids api = Some (Inl e) \<longleftrightarrow>
      (\<exists>n. (\<forall>j<n. market_continues api j) \<and> market_answer api n = Inl e))"
  "(market_get_offer_ids api = None \<longleftrightarrow> (\<forall>n. market_continues api n))"
proof -
  let ?loop = "market_offer_ids_loop api 0 [] []"
  have inr: "?loop = Some (Inr pl) \<longleftrightarrow>
      (\<exists>n. (\<forall>j<n. market_continues api j) \<and> market_cursor_empty api n
         \<and> pl = market_accumulated api (Suc n))" for pl
  proof
    assume "?loop = Some (Inr pl)"
    then obtain n where n: "\<forall>j<n. market_continues api j" "\<not> market_continues api n"
      and r: "Inr pl = (case market_answer api n of
                    Inl e \<Rightarrow> Inl e
                  | Inr r \<Rightarrow> Inr (market_accumulated api (Suc n)))"
      unfolding market_offer_ids_loop_outcome by blast
    from r obtain r' where a: "market_answer api n = Inr r'"
      by (cases "market_answer api n") simp_all
    with r have "pl = market_accumulated api (Suc n)"
      by simp
    moreover from n(2) a have "market_cursor_empty api n"
      by (simp add: market_not_continues)
    ultimately show "\<exists>n. (\<forall>j<n. market_continues api j) \<and> market_cursor_empty api n
         \<and> pl = market_accumulated api (Suc n)"
      using n(1) by blast
  next
    assume "\<exists>n. (\<forall>j<n. market_continues api j) \<and> market_cursor_empty api n
         \<and> pl = market_accumulated api (Suc n)"
    then obtain n where n: "\<forall>j<n. market_continues api j" "market_cursor_empty api n"
      and p: "pl = market_accumulated api (Suc n)"
      by blast
    from n(2) obtain r where a: "market_answer api n = Inr r"
      using market_cursor_empty_answer by blast
    from n(2) have "\<not> market_continues api n"
      by (simp add: market_not_continues)
    moreover from a p have "Inr pl = (case market_answer api n of
                    Inl e \<Rightarrow> Inl e
                  | Inr r \<Rightarrow> Inr (market_accumulated api (Suc n)))"
      by simp
    ultimately show "?loop = Some (Inr pl)"
      unfolding market_offer_ids_loop_outcome using n(1) by blast
  qed
  have inl: "?loop = Some (Inl e) \<longleftrightarrow>
      (\<exists>n. (\<forall>j<n. market_continues api j) \<and> market_answer api n = Inl e)"
  proof
    assume "?loop = Some (Inl e)"
    then obtain n where n: "\<forall>j<n. market_continues api j"
      and r: "Inl e = (case market_answer api n of
                    Inl e \<Rightarrow> Inl e
                  | Inr r \<Rightarrow> Inr (market_accumulated api (Suc n)))"
      unfolding market_offer_ids_loop_outcome by blast
    from r have "market_answer api n = Inl e"
      by (cases "market_answer api n") simp_all
    with n show "\<exists>n. (\<forall>j<n. market_continues api j) \<and> market_answer api n = Inl e"
      by blast
  next
    assume "\<exists>n. (\<forall>j<n. market_continues api j) \<and> market_answer api n = Inl e"
    then obtain n where n: "\<forall>j<n. market_continues api j" and a: "market_answer api n = Inl e"
      by blast
    from a have "\<not> market_continues api n"
      by (simp add: market_continues_def)
    moreover from a have "Inl e = (case market_answer api n of
                    Inl e \<Rightarrow> Inl e
                  | Inr r \<Rightarrow> Inr (market_accumulated api (Suc n)))"
      by simp
    ultimately show "?loop = Some (Inl e)"
      unfolding market_offer_ids_loop_outcome using n by blast
  qed
  have none: "?loop = None \<longleftrightarrow> (\<forall>n. market_continues api n)"
  proof
    assume l: "?loop = None"
    show "\<forall>n. market_continues api n"
    proof (rule ccontr)
      assume "\<not> (\<forall>n. market_continues api n)"
      then obtain m where "\<not> market_continues api m"
        by blast
      from first_stop [of "market_continues api", OF this]
      obtain n where "\<forall>j<n. market_continues api j" "\<not> market_continues api n"
        by blast
      then have "\<exists>res. ?loop = Some res"
        unfolding market_offer_ids_loop_outcome by blast
      with l show False
        by simp
    qed
  next
    assume a: "\<forall>n. market_continues api n"
    show "?loop = None"
    proof (cases ?loop)
      case None
      then show ?thesis .
    next
      case (Some res)
      then obtain n where "\<not> market_continues api n"
        unfolding market_offer_ids_loop_outcome by blast
      with a show ?thesis
        by blast
    qed
  qed
  show "market_get_offer_ids api = Some (Inr ids) \<longleftrightarrow>
      (\<exists>n. (\<forall>j<n. market_continues api j) \<and> market_cursor_empty api n
         \<and> ids = map (\<lambda>product. shopSku (offer product)) (market_accumulated api (Suc n)))"
  proof
    assume "market_get_offer_ids api = Some (Inr ids)"
    then obtain pl where "?loop = Some (Inr pl)" and "ids = map (\<lambda>product. shopSku (offer product)) pl"
      by (auto simp: market_get_offer_ids_def split: option.splits sum.splits)
    then show "\<exists>n. (\<forall>j<n. market_continues api j) \<and> market_cursor_empty api n
         \<and> ids = map (\<lambda>product. shopSku (offer product)) (market_accumulated api (Suc n))"
      unfolding inr by blast
  next
    assume "\<exists>n. (\<forall>j<n. market_continues api j) \<and> market_cursor_empty api n
         \<and> ids = map (\<lambda>product. shopSku (offer product)) (market_accumulated api (Suc n))"
    then obtain n where n: "\<forall>j<n. market_continues api j" "market_cursor_empty api n"
      and i: "ids = map (\<lambda>product. shopSku (offer product)) (market_accumulated api (Suc n))"
      by blast
    from n have "?loop = Some (Inr (market_accumulated api (Suc n)))"
      unfolding inr by blast
    with i show "market_get_offer_ids api = Some (Inr ids)"
      by (simp add: market_get_offer_ids_def)
  qed
  have "market_get_offer_ids api = Some (Inl e) \<longleftrightarrow> ?loop = Some (Inl e)"
    by (auto simp: market_get_offer_ids_def split: option.splits sum.splits)
  with inl show "market_get_offer_ids api = Some (Inl e) \<longleftrightarrow>
      (\<exists>n. (\<forall>j<n. market_continues api j) \<and> market_answer api n = Inl e)"
    by simp
  have "market_get_offer_ids api = None \<longleftrightarrow> ?loop = None"
    by (auto simp: market_get_offer_ids_def split: option.splits sum.splits)
  with none show "market_get_offer_ids api = None \<longleftrightarrow> (\<forall>n. market_continues api n)"
    by simp
qed

text \<open>
  C6. Against any marketplace, \<open>get_offer_ids\<close> of \<open>seller.py\<close> returns a list exactly when
  some answer is the first to report a \<open>total\<close> equal to the number of products accumulated
  with it, every request before it having been answered; the list is then the offer
  identifiers of the products of all answers up to that one, in order. \<open>get_offer_ids\<close> of
  \<open>market.py\<close> returns a list exactly when some answer is the first to carry no next-page
  token or the empty one; the list is then the identifiers of the entries of all answers
  up to that one, in order. Either call raises exactly when a request fails before that,
  and never returns exactly when every request is answered and none meets the condition.
\<close>

theorem get_offer_ids_terminates:
  "(seller_get_offer_ids api = Some (Inr ids) \<longleftrightarrow>
      (\<exists>n. (\<forall>j<n. ozon_continues api j) \<and> ozon_total_reached api n
         \<and> ids = map product_offer_id (ozon_accumulated api (Suc n))))
   \<and> (seller_get_offer_ids api = Some (Inl e) \<longleftrightarrow>
      (\<exists>n. (\<forall>j<n. ozon_continues api j) \<and> ozon_answer api n = Inl e))
   \<and> (seller_get_offer_ids api = None \<longleftrightarrow> (\<forall>n. ozon_continues api n))
   \<and> (market_get_offer_ids mapi = Some (Inr mids) \<longleftrightarrow>
      (\<exists>n. (\<forall>j<n. market_continues mapi j) \<and> market_cursor_empty mapi n
         \<and> mids = map (\<lambda>product. shopSku (offer product)) (market_accumulated mapi (Suc n))))
   \<and> (market_get_offer_ids mapi = Some (Inl e') \<longleftrightarrow>
      (\<exists>n. (\<forall>j<n. market_continues mapi j) \<and> market_answer mapi n = Inl e'))
   \<and> (market_get_offer_ids mapi = None \<longleftrightarrow> (\<forall>n. market_continues mapi n))"
  by (intro conjI seller_get_offer_ids_outcomes market_get_offer_ids_outcomes)

lemma ozon_example_run:
  "ozon_answer ozon_example_api 0 =
     Inr \<lparr>result_items = [\<lparr>product_offer_id = ''1001''\<rparr>, \<lparr>product_offer_id = ''1002''\<rparr>],
          total = 3, last_id = ''1002''\<rparr>"
  "ozon_answer ozon_example_api (Suc 0) =
     Inr \<lparr>result_items = [\<lparr>product_offer_id = ''1003''\<rparr>], total = 3, last_id = ''1003''\<rparr>"
  by (simp_all add: ozon_answer_def ozon_example_api_def)

lemma ozon_example_accumulated:
  "ozon_accumulated ozon_example_api (Suc 0) =
     [\<lparr>product_offer_id = ''1001''\<rparr>, \<lparr>product_offer_id = ''1002''\<rparr>]"
  "ozon_accumulated ozon_example_api (Suc (Suc 0)) =
     [\<lparr>product_offer_id = ''1001''\<rparr>, \<lparr>product_offer_id = ''1002''\<rparr>, \<lparr>product_offer_id = ''1003''\<rparr>]"
  by (simp_all add: ozon_accumulated_Suc ozon_example_run) (simp_all add: ozon_accumulated_def)

lemma market_example_run:
  "market_answer market_example_api 0 =
     Inr \<lparr>offerMappingEntries = [\<lparr>offer = \<lparr>shopSku = ''12345''\<rparr>\<rparr>],
          paging = \<lparr>nextPageToken = Some ''p2''\<rparr>\<rparr>"
  "market_answer market_example_api (Suc 0) =
     Inr \<lparr>offerMappingEntries = [\<lparr>offer = \<lparr>shopSku = ''67890''\<rparr>\<rparr>],
          paging = \<lparr>nextPageToken = None\<rparr>\<rparr>"
  by (simp_all add: market_answer_def market_example_api_def next_page_def)

lemma market_example_accumulated:
  "market_accumulated market_example_api (Suc (Suc 0)) =
     [\<lparr>offer = \<lparr>shopSku = ''12345''\<rparr>\<rparr>, \<lparr>offer = \<lparr>shopSku = ''67890''\<rparr>\<rparr>]"
  by (simp add: market_accumulated_Suc market_example_run) (simp add: market_accumulated_def)

theorem get_offer_ids_terminates_witness:
  "ozon_continues ozon_example_api 0 \<and> ozon_total_reached ozon_example_api (Suc 0)
   \<and> seller_get_offer_ids ozon_example_api = Some (Inr [''1001'', ''1002'', ''1003''])
   \<and> market_continues market_example_api 0 \<and> market_cursor_empty market_example_api (Suc 0)
   \<and> market_get_offer_ids market_example_api = Some (Inr [''12345'', ''67890''])"
proof -
  have oc: "ozon_continues ozon_example_api 0"
    by (simp add: ozon_continues_def ozon_example_run ozon_example_accumulated)
  have ot: "ozon_total_reached ozon_example_api (Suc 0)"
    by (simp add: ozon_total_reached_def ozon_example_run ozon_example_accumulated)
  have mc: "market_continues market_example_api 0"
    by (simp add: market_continues_def market_example_run next_page_def)
  have mt: "market_cursor_empty market_example_api (Suc 0)"
    by (simp add: market_cursor_empty_def market_example_run next_page_def)
  have o: "\<exists>n. (\<forall>j<n. ozon_continues ozon_example_api j) \<and> ozon_total_reached ozon_example_api n
      \<and> [''1001'', ''1002'', ''1003''] =
          map product_offer_id (ozon_accumulated ozon_example_api (Suc n))"
    using oc ot by (intro exI [of _ "Suc 0"]) (simp add: ozon_example_accumulated)
  have m: "\<exists>n. (\<forall>j<n. market_continues market_example_api j)
      \<and> market_cursor_empty market_example_api n
      \<and> [''12345'', ''67890''] =
          map (\<lambda>product. shopSku (offer product)) (market_accumulated market_example_api (Suc n))"
    using mc mt by (intro exI [of _ "Suc 0"]) (simp add: market_example_accumulated)
  note t = get_offer_ids_terminates
    [of ozon_example_api "[''1001'', ''1002'', ''1003'']" RequestError
        market_example_api "[''12345'', ''67890'']" RequestError]
  from t o have og: "seller_get_offer_ids ozon_example_api = Some (Inr [''1001'', ''1002'', ''1003''])"
    by blast
  from t m have mg: "market_get_offer_ids market_example_api = Some (Inr [''12345'', ''67890''])"
    by blast
  show ?thesis
    by (intro conjI oc ot og mc mt mg)
qed

end
